theory Spec2Isabelle
  imports Main
begin

section \<open>The drawing surface of \<open>src/pages/index.tsx\<close>\<close>

text \<open>
  The component \<open>DrawingApp\<close> keeps its state in React hooks and in the 2D context of one
  canvas element. The model is a record of that state and one function per handler.
  What the browser does is not code of the component and is taken as a parameter
  (\<open>'px browser\<close>): the size of the element that holds the canvas when the page loads, the
  pixels of a cleared canvas of a given size, what \<open>ctx.drawImage(img, 0, 0)\<close> leaves on
  such a canvas, the PNG codec behind \<open>canvas.toDataURL\<close> and \<open>new Image()\<close>, and the
  rasteriser behind \<open>ctx.stroke()\<close>. A value of \<open>'px\<close> is a bitmap, its size included.

  An image load is asynchronous in the browser. The model runs the \<open>onload\<close> callback of a
  handler before the next handler starts; a load that fails never runs its callback
  (the component installs no \<open>onerror\<close>). Pointer coordinates are integers. A \<open>char\<close> is
  a code unit of a JavaScript string below 256.
\<close>

subsection \<open>Data\<close>

datatype tool = Brush | Eraser | Rectangle | Circle

text \<open>The current path of the 2D context; \<open>Arc cx cy r\<close> is the full circle
  \<open>ctx.arc(cx, cy, r, 0, 2 * Math.PI)\<close>.\<close>

datatype pathcmd =
    MoveTo int int
  | LineTo int int
  | Rect int int int int
  | Arc int int int
  | ClosePath

text \<open>\<open>drawImage B sz img\<close> is a cleared canvas of the size \<open>sz\<close> after
  \<open>ctx.drawImage(img, 0, 0)\<close>: the image at the origin, not scaled, cut at the borders of
  the canvas.\<close>

record 'px browser =
  container :: "nat \<times> nat"
  blank :: "nat \<times> nat \<Rightarrow> 'px"
  drawImage :: "nat \<times> nat \<Rightarrow> 'px \<Rightarrow> 'px"
  toDataURL :: "'px \<Rightarrow> string"
  loadImage :: "string \<Rightarrow> 'px option"
  stroke :: "pathcmd list \<Rightarrow> string \<Rightarrow> int \<Rightarrow> 'px \<Rightarrow> 'px"

record layer =
  layer_id :: string
  layer_name :: string
  visible :: bool
  data :: string

text \<open>\<open>width\<close> and \<open>height\<close> are \<open>canvas.width\<close> and \<open>canvas.height\<close>; \<open>canvas\<close> is the
  bitmap of the canvas element.\<close>

record 'px session =
  darkMode :: bool
  width :: nat
  height :: nat
  canvas :: 'px
  contextRef :: bool
  strokeStyle :: string
  lineWidth :: int
  path :: "pathcmd list"
  isDrawing :: bool
  tool :: tool
  color :: string
  brushSize :: int
  startX :: int
  startY :: int
  history :: "string list"
  currentStep :: int
  layers :: "layer list"
  activeLayer :: string

subsection \<open>JavaScript arrays\<close>

text \<open>\<open>xs.slice(0, e)\<close>: a negative end counts from the end of the array.\<close>

definition slice0 :: "int \<Rightarrow> 'a list \<Rightarrow> 'a list" where
  "slice0 e xs = (if e < 0 then take (nat (int (length xs) + e)) xs else take (nat e) xs)"

text \<open>\<open>xs[i]\<close>: \<open>undefined\<close> (here \<open>None\<close>) outside the array.\<close>

definition index :: "'a list \<Rightarrow> int \<Rightarrow> 'a option" where
  "index xs i = (if 0 \<le> i \<and> i < int (length xs) then Some (xs ! nat i) else None)"

subsection \<open>Numbers\<close>

text \<open>A JavaScript Number is an IEEE double. The handlers only make Numbers that hold an
  integer, \<open>NaN\<close> or an infinity; \<open>Num i\<close> is the double whose value is the integer \<open>i\<close>.
  \<open>toNumber\<close> rounds an integer to the nearest double, ties to the even significand of 53
  bits, and to an infinity from \<open>2 ^ 1024 - 2 ^ 970\<close> on; \<open>spare a\<close> is the number of low bits
  of \<open>a\<close> that a significand cannot hold.\<close>

datatype number = NaN | Num int | Infinity | NegInfinity

function spare :: "int \<Rightarrow> nat" where
  "spare a = (if a < 2 ^ 53 then 0 else Suc (spare (a div 2)))"
  by pat_completeness auto
termination
  by (relation "measure nat") auto

declare spare.simps [simp del]

definition toNumber :: "int \<Rightarrow> number" where
  "toNumber i =
     (let a = \<bar>i\<bar>; e = spare a; q = a div 2 ^ e; r = a mod 2 ^ e;
          q' = (if 2 ^ e < 2 * r \<or> (2 * r = 2 ^ e \<and> odd q) then q + 1 else q);
          m = q' * 2 ^ e
      in if 2 ^ 1024 \<le> m then (if i < 0 then NegInfinity else Infinity)
         else Num (if i < 0 then - m else m))"

text \<open>White space that \<open>parseInt\<close> skips, among the code units below 256.\<close>

definition isWhiteSpace :: "char \<Rightarrow> bool" where
  "isWhiteSpace c =
     (c \<in> set [CHR '' '', CHR 0x09, CHR 0x0A, CHR 0x0B, CHR 0x0C, CHR 0x0D, CHR 0xA0])"

definition digitValue :: "char \<Rightarrow> nat option" where
  "digitValue c = (let k = (of_char c :: nat) in
     if 48 \<le> k \<and> k \<le> 57 then Some (k - 48)
     else if 97 \<le> k \<and> k \<le> 122 then Some (k - 87)
     else if 65 \<le> k \<and> k \<le> 90 then Some (k - 55)
     else None)"

definition isDigitIn :: "nat \<Rightarrow> char \<Rightarrow> bool" where
  "isDigitIn radix c = (case digitValue c of Some v \<Rightarrow> v < radix | None \<Rightarrow> False)"

definition digitsValue :: "nat \<Rightarrow> string \<Rightarrow> int" where
  "digitsValue radix ds =
     foldl (\<lambda>a c. case digitValue c of Some v \<Rightarrow> a * int radix + int v | None \<Rightarrow> a) 0 ds"

text \<open>\<open>parseInt(str)\<close> with no radix: leading white space, a sign, a \<open>0x\<close> prefix, then the
  longest prefix of digits, read as an integer and rounded to a double. (Beyond 20
  significant decimal digits ECMAScript lets an implementation round less exactly; the
  model rounds exactly, as V8 and SpiderMonkey do.) \<open>parseInt('-0') + 1\<close> is 1, as
  \<open>0 + 1\<close> is.\<close>

definition parseInt :: "string \<Rightarrow> number" where
  "parseInt str =
     (let s1 = dropWhile isWhiteSpace str;
          neg = (take 1 s1 = ''-'');
          s2 = (if take 1 s1 = ''+'' \<or> take 1 s1 = ''-'' then drop 1 s1 else s1);
          hex = (take 2 s2 = ''0x'' \<or> take 2 s2 = ''0X'');
          radix = (if hex then 16 else 10);
          s3 = (if hex then drop 2 s2 else s2);
          ds = takeWhile (isDigitIn radix) s3
      in if ds = [] then NaN
         else toNumber ((if neg then - 1 else 1) * digitsValue radix ds))"

text \<open>\<open>v + 1\<close>: the exact sum, rounded to a double.\<close>

definition plusOne :: "number \<Rightarrow> number" where
  "plusOne v = (case v of Num i \<Rightarrow> toNumber (i + 1) | _ \<Rightarrow> v)"

text \<open>The decimal numeral of an integer.\<close>

definition digitChar :: "nat \<Rightarrow> char" where
  "digitChar d = ''0123456789'' ! d"

function digits :: "int \<Rightarrow> string" where
  "digits n =
     (if n < 10 then [digitChar (nat n)]
      else digits (n div 10) @ [digitChar (nat (n mod 10))])"
  by pat_completeness auto
termination
  by (relation "measure nat") auto

declare digits.simps [simp del]

definition decimal :: "int \<Rightarrow> string" where
  "decimal i = (if i < 0 then CHR ''-'' # digits (- i) else digits i)"

text \<open>\<open>Number.prototype.toString\<close> writes the shortest decimal numeral that rounds to the
  double: \<open>shortest v e0\<close> is the pair \<open>(s, e)\<close> with the largest \<open>e \<le> e0\<close> such that
  \<open>s * 10 ^ e\<close> rounds to \<open>v\<close>, and of two such \<open>s\<close> the one nearer to \<open>v\<close>, the even one
  when both are as near. Up to 21 digits the numeral is written out; beyond, the exponent
  notation is used.\<close>

fun shortest :: "int \<Rightarrow> nat \<Rightarrow> int \<times> nat" where
  "shortest v 0 = (v, 0)"
| "shortest v (Suc e) =
     (let p = 10 ^ Suc e; lo = v div p; hi = lo + 1;
          okLo = (0 < lo \<and> toNumber (lo * p) = Num v);
          okHi = (toNumber (hi * p) = Num v)
      in if okLo \<and> okHi
         then (if v - lo * p < hi * p - v \<or> (v - lo * p = hi * p - v \<and> even lo)
               then (lo, Suc e) else (hi, Suc e))
         else if okLo then (lo, Suc e)
         else if okHi then (hi, Suc e)
         else shortest v e)"

definition positiveToString :: "int \<Rightarrow> string" where
  "positiveToString v =
     (let (s, e) = shortest v (length (digits v));
          ds = digits s; n = length ds + e
      in if n \<le> 21 then ds @ replicate e (CHR ''0'')
         else (if length ds = 1 then ds else hd ds # CHR ''.'' # tl ds) @ ''e+'' @
              digits (int n - 1))"

definition numberToString :: "number \<Rightarrow> string" where
  "numberToString v =
     (case v of
        NaN \<Rightarrow> ''NaN''
      | Infinity \<Rightarrow> ''Infinity''
      | NegInfinity \<Rightarrow> ''-Infinity''
      | Num i \<Rightarrow>
          if i = 0 then ''0''
          else if i < 0 then CHR ''-'' # positiveToString (- i)
          else positiveToString i)"

subsection \<open>Effects\<close>

text \<open>\<open>prevLayers.map(layer => layer.id === activeLayer ? {...layer, data: d} : layer)\<close>\<close>

definition setLayerData :: "string \<Rightarrow> string \<Rightarrow> layer list \<Rightarrow> layer list" where
  "setLayerData a d ls = map (\<lambda>l. if layer_id l = a then l\<lparr>data := d\<rparr> else l) ls"

text \<open>The effect on \<open>[color, brushSize, tool]\<close> (lines 74-79).\<close>

definition toolEffect :: "'px session \<Rightarrow> 'px session" where
  "toolEffect s =
     (if contextRef s
      then s\<lparr>strokeStyle := (if tool s = Eraser then ''#ffffff'' else color s),
             lineWidth := brushSize s\<rparr>
      else s)"

text \<open>The effect on \<open>[isDrawing]\<close> (lines 82-103). It runs after the first render and after
  every render in which \<open>isDrawing\<close> changed; the canvas element is always there by then.\<close>

definition commitEffect :: "'px browser \<Rightarrow> 'px session \<Rightarrow> 'px session" where
  "commitEffect B s =
     (if \<not> isDrawing s
      then let newData = toDataURL B (canvas s)
           in s\<lparr>layers := setLayerData (activeLayer s) newData (layers s),
                 history :=
                   (if currentStep s < int (length (history s)) - 1
                    then slice0 (currentStep s + 1) (history s) @ [newData]
                    else history s @ [newData]),
                 currentStep := currentStep s + 1\<rparr>
      else s)"

definition setIsDrawing :: "'px browser \<Rightarrow> bool \<Rightarrow> 'px session \<Rightarrow> 'px session" where
  "setIsDrawing B b s = (if isDrawing s = b then s else commitEffect B (s\<lparr>isDrawing := b\<rparr>))"

definition setTool :: "tool \<Rightarrow> 'px session \<Rightarrow> 'px session" where
  "setTool k s = (if tool s = k then s else toolEffect (s\<lparr>tool := k\<rparr>))"

definition setColor :: "string \<Rightarrow> 'px session \<Rightarrow> 'px session" where
  "setColor c s = (if color s = c then s else toolEffect (s\<lparr>color := c\<rparr>))"

definition setBrushSize :: "int \<Rightarrow> 'px session \<Rightarrow> 'px session" where
  "setBrushSize n s = (if brushSize s = n then s else toolEffect (s\<lparr>brushSize := n\<rparr>))"

text \<open>The two size buttons (lines 591 and 605).\<close>

definition increaseSize :: "'px session \<Rightarrow> 'px session" where
  "increaseSize s = setBrushSize (min (brushSize s + 1) 30) s"

definition decreaseSize :: "'px session \<Rightarrow> 'px session" where
  "decreaseSize s = setBrushSize (max (brushSize s - 1) 1) s"

definition toggleDarkMode :: "'px session \<Rightarrow> 'px session" where
  "toggleDarkMode s = s\<lparr>darkMode := \<not> darkMode s\<rparr>"

text \<open>The class of the canvas element (line 625) and the colour Tailwind 2.2.19 gives it.\<close>

definition canvasClass :: "'px session \<Rightarrow> string" where
  "canvasClass s = (if darkMode s then ''bg-gray-700'' else ''bg-white'')"

definition tailwindColor :: "string \<Rightarrow> string" where
  "tailwindColor c = (if c = ''bg-white'' then ''#ffffff''
                      else if c = ''bg-gray-700'' then ''#374151'' else '''')"

definition canvasBackground :: "'px session \<Rightarrow> string" where
  "canvasBackground s = tailwindColor (canvasClass s)"

text \<open>\<open>img.onload = k; img.src = src\<close>: the callback runs with the decoded image, or never.\<close>

definition onLoad :: "'px browser \<Rightarrow> string \<Rightarrow> ('px \<Rightarrow> 's) \<Rightarrow> 's \<Rightarrow> 's" where
  "onLoad B src k s = (case loadImage B src of None \<Rightarrow> s | Some img \<Rightarrow> k img)"

subsection \<open>Mounting\<close>

text \<open>The state of the first render; a canvas element is 300 by 150 until it is resized.\<close>

definition initial :: "'px browser \<Rightarrow> 'px session" where
  "initial B =
     \<lparr>darkMode = False, width = 300, height = 150, canvas = blank B (300, 150),
      contextRef = False,
      strokeStyle = ''#000000'', lineWidth = 1, path = [],
      isDrawing = False, tool = Brush, color = ''#000000'', brushSize = 5,
      startX = 0, startY = 0, history = [], currentStep = - 1,
      layers = [\<lparr>layer_id = ''1'', layer_name = ''Layer 1'', visible = True, data = ''''\<rparr>],
      activeLayer = ''1''\<rparr>"

text \<open>\<open>resizeCanvas\<close> (lines 47-63) gives the canvas the size of its container, here
  \<open>sz\<close>. It belongs to an effect with no dependencies, so the \<open>color\<close> and \<open>brushSize\<close> it
  reads are those of the first render. Setting the size of a canvas clears it and resets
  its path. The canvas has a parent element and a 2D context, as it has on the page.\<close>

definition resizeCanvas :: "'px browser \<Rightarrow> nat \<times> nat \<Rightarrow> 'px session \<Rightarrow> 'px session" where
  "resizeCanvas B sz s =
     s\<lparr>width := fst sz, height := snd sz, canvas := blank B sz, path := [],
       contextRef := True, strokeStyle := ''#000000'', lineWidth := 5\<rparr>"

text \<open>\<open>ctx.clearRect(0, 0, canvas.width, canvas.height)\<close>\<close>

definition clearRect :: "'px browser \<Rightarrow> 'px session \<Rightarrow> 'px session" where
  "clearRect B s = s\<lparr>canvas := blank B (width s, height s)\<rparr>"

text \<open>The three effects of the first render, in the order of the source.\<close>

definition mount :: "'px browser \<Rightarrow> 'px session" where
  "mount B = commitEffect B (toolEffect (resizeCanvas B (container B) (initial B)))"

subsection \<open>Drawing\<close>

definition startDrawing :: "'px browser \<Rightarrow> int \<Rightarrow> int \<Rightarrow> 'px session \<Rightarrow> 'px session" where
  "startDrawing B x y s =
     (if \<not> contextRef s then s
      else let s1 = s\<lparr>startX := x, startY := y\<rparr>;
               s2 = (if tool s = Brush \<or> tool s = Eraser then s1\<lparr>path := [MoveTo x y]\<rparr> else s1)
           in setIsDrawing B True s2)"

text \<open>The path of a shape preview (lines 175-184).\<close>

definition shapePath :: "tool \<Rightarrow> int \<Rightarrow> int \<Rightarrow> int \<Rightarrow> int \<Rightarrow> pathcmd list" where
  "shapePath t sx sy x y =
     (if t = Rectangle then [Rect sx sy (x - sx) (y - sy)]
      else if t = Circle
      then let radiusX = \<bar>x - sx\<bar>; radiusY = \<bar>y - sy\<bar>; radius = max radiusX radiusY
           in [Arc sx sy radius]
      else [])"

definition draw :: "'px browser \<Rightarrow> int \<Rightarrow> int \<Rightarrow> 'px session \<Rightarrow> 'px session" where
  "draw B x y s =
     (if \<not> isDrawing s \<or> \<not> contextRef s then s
      else if tool s = Brush \<or> tool s = Eraser
      then let p = path s @ [LineTo x y]
           in s\<lparr>path := p, canvas := stroke B p (strokeStyle s) (lineWidth s) (canvas s)\<rparr>
      else let s1 = clearRect B s
           in case find (\<lambda>l. layer_id l = activeLayer s) (layers s) of
                None \<Rightarrow> s1
              | Some l \<Rightarrow>
                  (if data l = [] then s1
                   else onLoad B (data l)
                          (\<lambda>img. let p = shapePath (tool s) (startX s) (startY s) x y
                                 in s1\<lparr>strokeStyle := color s, lineWidth := brushSize s,
                                       path := p,
                                       canvas := stroke B p (color s) (brushSize s)
                                                   (drawImage B (width s, height s) img)\<rparr>)
                          s1))"

definition stopDrawing :: "'px browser \<Rightarrow> 'px session \<Rightarrow> 'px session" where
  "stopDrawing B s =
     (if \<not> isDrawing s then s
      else let s1 = (if contextRef s then s\<lparr>path := path s @ [ClosePath]\<rparr> else s)
           in setIsDrawing B False s1)"

subsection \<open>History\<close>

definition drawFromHistory :: "'px browser \<Rightarrow> int \<Rightarrow> 'px session \<Rightarrow> 'px session" where
  "drawFromHistory B step s =
     (if \<not> contextRef s then s
      else let s1 = clearRect B s
           in if step \<ge> 0
              then case index (history s) step of
                     None \<Rightarrow> s1
                   | Some h \<Rightarrow>
                       (if h = [] then s1
                        else onLoad B h
                               (\<lambda>img. s1\<lparr>canvas := drawImage B (width s, height s) img,
                                         layers := setLayerData (activeLayer s) h (layers s)\<rparr>)
                               s1)
              else s1)"

definition undo :: "'px browser \<Rightarrow> 'px session \<Rightarrow> 'px session" where
  "undo B s =
     (if currentStep s > 0
      then drawFromHistory B (currentStep s - 1) (s\<lparr>currentStep := currentStep s - 1\<rparr>)
      else s)"

definition redo :: "'px browser \<Rightarrow> 'px session \<Rightarrow> 'px session" where
  "redo B s =
     (if currentStep s < int (length (history s)) - 1
      then drawFromHistory B (currentStep s + 1) (s\<lparr>currentStep := currentStep s + 1\<rparr>)
      else s)"

definition clearCanvas :: "'px browser \<Rightarrow> 'px session \<Rightarrow> 'px session" where
  "clearCanvas B s =
     (if \<not> contextRef s then s
      else let clearedData = toDataURL B (blank B (width s, height s))
           in s\<lparr>canvas := blank B (width s, height s),
                 history := history s @ [clearedData],
                 currentStep := currentStep s + 1,
                 layers := setLayerData (activeLayer s) clearedData (layers s)\<rparr>)"

subsection \<open>Layers\<close>

text \<open>\<open>layers[layers.length - 1]?.id || '0'\<close>\<close>

definition lastIdOrZero :: "layer list \<Rightarrow> string" where
  "lastIdOrZero ls = (if ls = [] \<or> layer_id (last ls) = [] then ''0'' else layer_id (last ls))"

text \<open>\<open>(parseInt(..) + 1).toString()\<close>\<close>

definition newLayerId :: "layer list \<Rightarrow> string" where
  "newLayerId ls = numberToString (plusOne (parseInt (lastIdOrZero ls)))"

definition addLayer :: "'px browser \<Rightarrow> 'px session \<Rightarrow> 'px session" where
  "addLayer B s =
     (let newId = newLayerId (layers s);
          newLayer = \<lparr>layer_id = newId, layer_name = ''Layer '' @ newId, visible = True,
                      data = toDataURL B (canvas s)\<rparr>
      in s\<lparr>layers := layers s @ [newLayer], activeLayer := newId\<rparr>)"

definition toggleLayerVisibility :: "string \<Rightarrow> 'px session \<Rightarrow> 'px session" where
  "toggleLayerVisibility i s =
     s\<lparr>layers := map (\<lambda>l. if layer_id l = i then l\<lparr>visible := \<not> visible l\<rparr> else l) (layers s)\<rparr>"

definition switchLayer :: "'px browser \<Rightarrow> string \<Rightarrow> 'px session \<Rightarrow> 'px session" where
  "switchLayer B i s =
     (let currentData = toDataURL B (canvas s);
          s1 = s\<lparr>layers := setLayerData (activeLayer s) currentData (layers s),
                 activeLayer := i\<rparr>
      in case find (\<lambda>l. layer_id l = i) (layers s) of
           None \<Rightarrow> s1
         | Some l \<Rightarrow>
             (if data l = [] \<or> \<not> contextRef s then s1
              else onLoad B (data l)
                     (\<lambda>img. s1\<lparr>canvas := drawImage B (width s, height s) img\<rparr>) s1))"

text \<open>\<open>downloadImage\<close> (lines 311-323) reads the canvas and changes nothing of the session:
  it is the file it hands to the browser.\<close>

definition downloadImage :: "'px browser \<Rightarrow> 'px session \<Rightarrow> string \<times> string" where
  "downloadImage B s = (''drawing.png'', toDataURL B (canvas s))"

subsection \<open>The operations the page offers\<close>

datatype event =
    SetTool tool
  | SetColor string
  | IncreaseSize
  | DecreaseSize
  | ToggleDarkMode
  | PointerDown int int
  | PointerMove int int
  | PointerUp
  | Undo
  | Redo
  | Clear
  | AddLayer
  | ToggleVisibility string
  | SwitchLayer string
  | Download
  | Resize nat nat

fun step :: "'px browser \<Rightarrow> 'px session \<Rightarrow> event \<Rightarrow> 'px session" where
  "step B s (SetTool k) = setTool k s"
| "step B s (SetColor c) = setColor c s"
| "step B s IncreaseSize = increaseSize s"
| "step B s DecreaseSize = decreaseSize s"
| "step B s ToggleDarkMode = toggleDarkMode s"
| "step B s (PointerDown x y) = startDrawing B x y s"
| "step B s (PointerMove x y) = draw B x y s"
| "step B s PointerUp = stopDrawing B s"
| "step B s Undo = undo B s"
| "step B s Redo = redo B s"
| "step B s Clear = clearCanvas B s"
| "step B s AddLayer = addLayer B s"
| "step B s (ToggleVisibility i) = toggleLayerVisibility i s"
| "step B s (SwitchLayer i) = switchLayer B i s"
| "step B s Download = s"
| "step B s (Resize w h) = resizeCanvas B (w, h) s"

definition run :: "'px browser \<Rightarrow> event list \<Rightarrow> 'px session \<Rightarrow> 'px session" where
  "run B es s = foldl (step B) s es"

text \<open>Pointer moves, one after the other.\<close>

definition moves :: "'px browser \<Rightarrow> (int \<times> int) list \<Rightarrow> 'px session \<Rightarrow> 'px session" where
  "moves B ms s = foldl (\<lambda>s' (x, y). draw B x y s') s ms"

text \<open>One completed draw action: pointer down, any number of moves, pointer up.\<close>

definition drawAction ::
  "'px browser \<Rightarrow> (int \<times> int) \<times> (int \<times> int) list \<Rightarrow> 'px session \<Rightarrow> 'px session" where
  "drawAction B a s =
     stopDrawing B (moves B (snd a) (startDrawing B (fst (fst a)) (snd (fst a)) s))"

text \<open>\<open>ctx.rect(x, y, w, h)\<close> is the rectangle with corners \<open>(x, y)\<close> and \<open>(x + w, y + h)\<close>.\<close>

fun corners :: "pathcmd \<Rightarrow> ((int \<times> int) \<times> (int \<times> int)) option" where
  "corners (Rect x y w h) = Some ((x, y), (x + w, y + h))"
| "corners _ = None"

subsection \<open>A browser to run the model on\<close>

text \<open>A bitmap is a text: the size of the canvas, then what was painted since the canvas was
  last cleared. An image of another size drawn on a cleared canvas is that image in
  brackets; the codec puts a fixed prefix in front of the text.\<close>

fun showCmd :: "pathcmd \<Rightarrow> string" where
  "showCmd (MoveTo x y) = ''M'' @ decimal x @ '','' @ decimal y"
| "showCmd (LineTo x y) = ''L'' @ decimal x @ '','' @ decimal y"
| "showCmd (Rect x y w h) =
     ''R'' @ decimal x @ '','' @ decimal y @ '','' @ decimal w @ '','' @ decimal h"
| "showCmd (Arc x y r) = ''A'' @ decimal x @ '','' @ decimal y @ '','' @ decimal r"
| "showCmd ClosePath = ''Z''"

definition showSize :: "nat \<times> nat \<Rightarrow> string" where
  "showSize sz = decimal (int (fst sz)) @ ''x'' @ decimal (int (snd sz)) @ '':''"

definition demoBrowser :: "string browser" where
  "demoBrowser =
     \<lparr>container = (80, 60),
      blank = showSize,
      drawImage = (\<lambda>sz img. if take (length (showSize sz)) img = showSize sz then img
                             else showSize sz @ ''<'' @ img @ ''>''),
      toDataURL = (\<lambda>p. ''data:image/png,'' @ p),
      loadImage = (\<lambda>d. if take 15 d = ''data:image/png,'' then Some (drop 15 d) else None),
      stroke = (\<lambda>p c w px. px @ ''['' @ concat (map showCmd p) @ c @ '']'')\<rparr>"

subsection \<open>Sequences of draw actions\<close>

definition drawActions ::
  "'px browser \<Rightarrow> ((int \<times> int) \<times> (int \<times> int) list) list \<Rightarrow> 'px session \<Rightarrow> 'px session" where
  "drawActions B as s = foldl (\<lambda>s' a. drawAction B a s') s as"

text \<open>Between two handlers, with nothing to redo: the context exists, no stroke is open and
  the cursor is on the last entry.\<close>

definition settled :: "'px session \<Rightarrow> bool" where
  "settled s = (contextRef s \<and> \<not> isDrawing s \<and> currentStep s = int (length (history s)) - 1)"

subsection \<open>Reading a layer\<close>

text \<open>\<open>layers.find(layer => layer.id === i)?.data\<close>\<close>

definition layerData :: "string \<Rightarrow> layer list \<Rightarrow> string option" where
  "layerData i ls = map_option data (find (\<lambda>l. layer_id l = i) ls)"

subsection \<open>The session invariant\<close>

definition layerIds :: "'px session \<Rightarrow> string list" where
  "layerIds s = map layer_id (layers s)"

text \<open>Layer ids are unique, exactly one layer is the active one, and \<open>activeLayer\<close> is the
  id of a layer of the store.\<close>

definition sessionInv :: "'px session \<Rightarrow> bool" where
  "sessionInv s =
     (distinct (layerIds s) \<and>
      length (filter (\<lambda>l. layer_id l = activeLayer s) (layers s)) = 1 \<and>
      activeLayer s \<in> set (layerIds s))"

text \<open>The ids of the stores that \<open>addLayer\<close> builds from the first one: \<open>1, 2, \<dots>, n\<close>.\<close>

definition idsCounted :: "'px session \<Rightarrow> bool" where
  "idsCounted s =
     (layers s \<noteq> [] \<and>
      layerIds s = map (\<lambda>k. decimal (int k)) [1..<Suc (length (layers s))])"

text \<open>The page only calls \<open>switchLayer\<close> with the id of a layer it lists (line 699).\<close>

fun admissible :: "'px session \<Rightarrow> event \<Rightarrow> bool" where
  "admissible s (SwitchLayer i) = (i \<in> set (layerIds s))"
| "admissible s _ = True"

fun admissibleRun :: "'px browser \<Rightarrow> 'px session \<Rightarrow> event list \<Rightarrow> bool" where
  "admissibleRun B s [] = True"
| "admissibleRun B s (e # es) = (admissible s e \<and> admissibleRun B (step B s e) es)"

subsection \<open>Sessions to run the model on\<close>

definition twoStrokes :: "string session" where
  "twoStrokes = run demoBrowser
     [PointerDown 1 1, PointerMove 2 2, PointerUp, PointerDown 3 3, PointerMove 4 4, PointerUp]
     (mount demoBrowser)"

definition switchedBack :: "string session" where
  "switchedBack = run demoBrowser
     [AddLayer, PointerDown 1 1, PointerMove 2 2, PointerUp,
      PointerDown 3 3, PointerMove 4 4, PointerUp, Undo, SwitchLayer ''1'']
     (mount demoBrowser)"

definition twoLayers :: "string session" where
  "twoLayers = run demoBrowser [AddLayer, PointerDown 1 1, PointerMove 2 2, PointerUp]
     (mount demoBrowser)"

text \<open>A stroke on layer 1, a second layer, then a window of another size.\<close>

definition resized :: "string session" where
  "resized = run demoBrowser
     [PointerDown 1 1, PointerMove 2 2, PointerUp, AddLayer, Resize 100 50]
     (mount demoBrowser)"

definition withLayerIds :: "string list \<Rightarrow> string session" where
  "withLayerIds ids = (mount demoBrowser)
     \<lparr>layers := map (\<lambda>i. \<lparr>layer_id = i, layer_name = ''Layer '' @ i, visible = True,
                           data = ''data:image/png,80x60:''\<rparr>) ids\<rparr>"

text \<open>Snapshots that do not decode: \<open>data:,\<close> is what \<open>toDataURL\<close> gives for a canvas of
  no size.\<close>

definition brokenSession :: "string session" where
  "brokenSession = twoStrokes
     \<lparr>history := [''data:,'', ''data:,'', ''data:,''], currentStep := 1,
      layers := [\<lparr>layer_id = ''1'', layer_name = ''Layer 1'', visible = True, data = ''data:,''\<rparr>]\<rparr>"

definition brokenPreview :: "string session" where
  "brokenPreview = startDrawing demoBrowser 10 10 (setTool Rectangle brokenSession)"

section \<open>History\<close>

lemma slice0_take: "0 \<le> e \<Longrightarrow> slice0 e xs = take (nat e) xs"
  by (simp add: slice0_def)

text \<open>The commit of a completed draw action drops the entries after the cursor, appends the
  snapshot and leaves the cursor on it.\<close>

lemma commitEffect_truncates:
  assumes "\<not> isDrawing s" and "- 1 \<le> currentStep s"
    and "currentStep s < int (length (history s)) - 1"
  shows "history (commitEffect B s) =
           take (nat (currentStep s + 1)) (history s) @ [toDataURL B (canvas s)]"
    and "currentStep (commitEffect B s) = int (length (history (commitEffect B s))) - 1"
  using assms by (auto simp: commitEffect_def Let_def slice0_take)

lemma commitEffect_appends:
  assumes "\<not> isDrawing s" and "currentStep s = int (length (history s)) - 1"
  shows "history (commitEffect B s) = history s @ [toDataURL B (canvas s)]"
    and "currentStep (commitEffect B s) = int (length (history (commitEffect B s))) - 1"
  using assms by (auto simp: commitEffect_def Let_def)

text \<open>
  Claim C1. Every commit, that of a completed stroke or shape and that of \<open>clear()\<close> alike,
  discards the entries after the cursor before it appends, and leaves the cursor on the
  new last entry. The effect on \<open>isDrawing\<close> does so (\<open>commitEffect_truncates\<close>);
  \<open>clearCanvas\<close> appends without truncating. Two strokes, two undos and a clear leave four
  entries, the second stroke still among them, and the cursor on index 1 instead of 3.
\<close>

theorem clearCanvas_keeps_forward_entries:
  "history (run demoBrowser
      [PointerDown 1 1, PointerMove 2 2, PointerUp,
       PointerDown 3 3, PointerMove 4 4, PointerUp, Undo, Undo, Clear]
      (mount demoBrowser)) =
     [''data:image/png,80x60:'',
      ''data:image/png,80x60:[M1,1L2,2#000000]'',
      ''data:image/png,80x60:[M1,1L2,2#000000][M3,3L4,4#000000]'',
      ''data:image/png,80x60:''] \<and>
   currentStep (run demoBrowser
      [PointerDown 1 1, PointerMove 2 2, PointerUp,
       PointerDown 3 3, PointerMove 4 4, PointerUp, Undo, Undo, Clear]
      (mount demoBrowser)) = 1"
  by code_simp

subsection \<open>Draw actions from a fresh session\<close>

lemma draw_keeps:
  "isDrawing (draw B x y s) = isDrawing s"
  "contextRef (draw B x y s) = contextRef s"
  "history (draw B x y s) = history s"
  "currentStep (draw B x y s) = currentStep s"
  "layers (draw B x y s) = layers s"
  "activeLayer (draw B x y s) = activeLayer s"
  "tool (draw B x y s) = tool s"
  "color (draw B x y s) = color s"
  "brushSize (draw B x y s) = brushSize s"
  "startX (draw B x y s) = startX s"
  "startY (draw B x y s) = startY s"
  "width (draw B x y s) = width s"
  "height (draw B x y s) = height s"
  by (simp_all add: draw_def clearRect_def Let_def onLoad_def split: option.splits)

lemma moves_keep:
  "isDrawing (moves B ms s) = isDrawing s"
  "contextRef (moves B ms s) = contextRef s"
  "history (moves B ms s) = history s"
  "currentStep (moves B ms s) = currentStep s"
  "layers (moves B ms s) = layers s"
  "activeLayer (moves B ms s) = activeLayer s"
  "tool (moves B ms s) = tool s"
  "color (moves B ms s) = color s"
  "brushSize (moves B ms s) = brushSize s"
  "startX (moves B ms s) = startX s"
  "startY (moves B ms s) = startY s"
  "width (moves B ms s) = width s"
  "height (moves B ms s) = height s"
  unfolding moves_def
  by (induction ms arbitrary: s; simp add: draw_keeps split: prod.splits)+

lemma startDrawing_settled:
  assumes "settled s"
  shows "isDrawing (startDrawing B x y s)" "contextRef (startDrawing B x y s)"
    "history (startDrawing B x y s) = history s"
    "currentStep (startDrawing B x y s) = currentStep s"
  using assms
  by (simp_all add: settled_def startDrawing_def setIsDrawing_def commitEffect_def Let_def)

lemma stopDrawing_commit:
  assumes "isDrawing s" "contextRef s" "currentStep s = int (length (history s)) - 1"
  shows "settled (stopDrawing B s)"
    "length (history (stopDrawing B s)) = Suc (length (history s))"
  using assms
  by (simp_all add: settled_def stopDrawing_def setIsDrawing_def commitEffect_def Let_def)

lemma drawAction_settled:
  assumes "settled s"
  shows "settled (drawAction B a s)"
    and "length (history (drawAction B a s)) = Suc (length (history s))"
proof -
  let ?m = "moves B (snd a) (startDrawing B (fst (fst a)) (snd (fst a)) s)"
  have m: "isDrawing ?m" "contextRef ?m" "currentStep ?m = int (length (history ?m)) - 1"
    "history ?m = history s"
    using assms startDrawing_settled [OF assms] by (simp_all add: moves_keep settled_def)
  show "settled (drawAction B a s)"
    unfolding drawAction_def using stopDrawing_commit(1) [OF m(1,2,3)] .
  show "length (history (drawAction B a s)) = Suc (length (history s))"
    unfolding drawAction_def using stopDrawing_commit(2) [OF m(1,2,3)] m(4) by simp
qed

text \<open>The first render already commits: the effect on \<open>isDrawing\<close> runs once on mount.\<close>

lemma mount_settled: "settled (mount B)" "length (history (mount B)) = 1"
  by (simp_all add: settled_def mount_def commitEffect_def toolEffect_def resizeCanvas_def
      initial_def Let_def)

lemma drawActions_settled:
  "settled s \<Longrightarrow> settled (drawActions B as s) \<and>
     length (history (drawActions B as s)) = length as + length (history s)"
proof (induction as arbitrary: s)
  case Nil
  then show ?case by (simp add: drawActions_def)
next
  case (Cons a as)
  from Cons.prems have "settled (drawAction B a s)"
    and "length (history (drawAction B a s)) = Suc (length (history s))"
    by (rule drawAction_settled)+
  with Cons.IH [of "drawAction B a s"] show ?case by (simp add: drawActions_def)
qed

text \<open>
  Claim C2, as amended. After \<open>N\<close> completed draw actions from a fresh session, with no
  clear, undo or redo between them, the history holds \<open>N + 1\<close> entries and the cursor is
  \<open>N\<close>: entry 0 is the snapshot of the empty canvas committed when the page mounts.
\<close>

theorem draw_actions_history:
  "length (history (drawActions B as (mount B))) = length as + 1 \<and>
   currentStep (drawActions B as (mount B)) = int (length as)"
  using drawActions_settled [OF mount_settled(1), of B as] mount_settled(2) [of B]
  by (simp add: settled_def)

theorem draw_actions_history_witness:
  "length (history (drawActions demoBrowser [((1, 1), [(2, 2)]), ((3, 3), [])]
      (mount demoBrowser))) = 3 \<and>
   currentStep (drawActions demoBrowser [((1, 1), [(2, 2)]), ((3, 3), [])]
      (mount demoBrowser)) = 2"
  using draw_actions_history [of demoBrowser "[((1, 1), [(2, 2)]), ((3, 3), [])]"] by simp

text \<open>As the claim states it (\<open>N\<close> entries, cursor \<open>N - 1\<close>), it fails for one action.\<close>

theorem one_action_two_entries:
  "\<not> (length (history (drawActions demoBrowser [((1, 1), [(2, 2)])] (mount demoBrowser))) = 1 \<and>
      currentStep (drawActions demoBrowser [((1, 1), [(2, 2)])] (mount demoBrowser)) = 1 - 1)"
  using drawActions_settled [OF mount_settled(1), of demoBrowser "[((1, 1), [(2, 2)])]"]
    mount_settled(2) [of demoBrowser]
  by simp

subsection \<open>Undo and redo\<close>

lemma drawFromHistory_keeps:
  "history (drawFromHistory B k s) = history s"
  "currentStep (drawFromHistory B k s) = currentStep s"
  "contextRef (drawFromHistory B k s) = contextRef s"
  "activeLayer (drawFromHistory B k s) = activeLayer s"
  "width (drawFromHistory B k s) = width s"
  "height (drawFromHistory B k s) = height s"
  by (simp_all add: drawFromHistory_def clearRect_def Let_def onLoad_def split: option.splits)

lemma drawFromHistory_replays:
  assumes "contextRef s" "index (history s) k = Some h" "h \<noteq> []" "loadImage B h = Some img"
  shows "canvas (drawFromHistory B k s) = drawImage B (width s, height s) img"
    and "layers (drawFromHistory B k s) = setLayerData (activeLayer s) h (layers s)"
  using assms
  by (auto simp: drawFromHistory_def clearRect_def Let_def onLoad_def index_def split: if_splits)

lemma drawFromHistory_fails:
  assumes "contextRef s" "index (history s) k = Some h" "loadImage B h = None"
  shows "canvas (drawFromHistory B k s) = blank B (width s, height s)"
  using assms
  by (auto simp: drawFromHistory_def clearRect_def Let_def onLoad_def index_def split: if_splits)

text \<open>
  Claim C3. \<open>undo()\<close> changes nothing when the cursor is at most 0; otherwise it moves the
  cursor down by exactly one and replays the entry now under the cursor: the canvas is
  cleared and the image the entry decodes to is drawn on it, and the entry is written into
  the active layer.
  \<open>redo()\<close> changes nothing when the cursor is on the last entry or beyond; otherwise it
  moves the cursor up by exactly one and replays in the same way.
\<close>

theorem undo_redo_steps:
  "(currentStep s \<le> 0 \<longrightarrow> undo B s = s) \<and>
   (0 < currentStep s \<longrightarrow>
      currentStep (undo B s) = currentStep s - 1 \<and> history (undo B s) = history s) \<and>
   (0 < currentStep s \<and> contextRef s \<and> index (history s) (currentStep s - 1) = Some h \<and>
      h \<noteq> [] \<and> loadImage B h = Some img \<longrightarrow>
      canvas (undo B s) = drawImage B (width s, height s) img \<and>
      layers (undo B s) = setLayerData (activeLayer s) h (layers s)) \<and>
   (currentStep s \<ge> int (length (history s)) - 1 \<longrightarrow> redo B s = s) \<and>
   (currentStep s < int (length (history s)) - 1 \<longrightarrow>
      currentStep (redo B s) = currentStep s + 1 \<and> history (redo B s) = history s) \<and>
   (currentStep s < int (length (history s)) - 1 \<and> contextRef s \<and>
      index (history s) (currentStep s + 1) = Some h' \<and>
      h' \<noteq> [] \<and> loadImage B h' = Some img' \<longrightarrow>
      canvas (redo B s) = drawImage B (width s, height s) img' \<and>
      layers (redo B s) = setLayerData (activeLayer s) h' (layers s))"
  by (simp add: undo_def redo_def drawFromHistory_keeps drawFromHistory_replays)

theorem undo_redo_steps_witness:
  "undo demoBrowser (mount demoBrowser) = mount demoBrowser \<and>
   redo demoBrowser twoStrokes = twoStrokes \<and>
   currentStep (undo demoBrowser twoStrokes) = 1 \<and>
   canvas (undo demoBrowser twoStrokes) = ''80x60:[M1,1L2,2#000000]'' \<and>
   map data (layers (undo demoBrowser twoStrokes)) =
     [''data:image/png,80x60:[M1,1L2,2#000000]''] \<and>
   currentStep (redo demoBrowser (undo demoBrowser twoStrokes)) = 2 \<and>
   canvas (redo demoBrowser (undo demoBrowser twoStrokes)) =
     ''80x60:[M1,1L2,2#000000][M3,3L4,4#000000]''"
proof -
  have a: "currentStep (mount demoBrowser) \<le> 0" by code_simp
  have b: "currentStep twoStrokes \<ge> int (length (history twoStrokes)) - 1" by code_simp
  have c: "0 < currentStep twoStrokes \<and> contextRef twoStrokes \<and>
      index (history twoStrokes) (currentStep twoStrokes - 1) =
        Some ''data:image/png,80x60:[M1,1L2,2#000000]'' \<and>
      ''data:image/png,80x60:[M1,1L2,2#000000]'' \<noteq> [] \<and>
      loadImage demoBrowser ''data:image/png,80x60:[M1,1L2,2#000000]'' =
        Some ''80x60:[M1,1L2,2#000000]''"
    by code_simp
  have c': "currentStep twoStrokes = 2" "activeLayer twoStrokes = ''1''"
     "map layer_id (layers twoStrokes) = [''1'']" by code_simp+
  have d: "currentStep (undo demoBrowser twoStrokes) <
             int (length (history (undo demoBrowser twoStrokes))) - 1 \<and>
      contextRef (undo demoBrowser twoStrokes) \<and>
      index (history (undo demoBrowser twoStrokes))
        (currentStep (undo demoBrowser twoStrokes) + 1) =
        Some ''data:image/png,80x60:[M1,1L2,2#000000][M3,3L4,4#000000]'' \<and>
      ''data:image/png,80x60:[M1,1L2,2#000000][M3,3L4,4#000000]'' \<noteq> [] \<and>
      loadImage demoBrowser ''data:image/png,80x60:[M1,1L2,2#000000][M3,3L4,4#000000]'' =
        Some ''80x60:[M1,1L2,2#000000][M3,3L4,4#000000]''"
    by code_simp
  have d': "currentStep (undo demoBrowser twoStrokes) = 1" by code_simp
  have e: "map data (setLayerData (activeLayer twoStrokes)
      ''data:image/png,80x60:[M1,1L2,2#000000]'' (layers twoStrokes)) =
      [''data:image/png,80x60:[M1,1L2,2#000000]'']" by code_simp
  have f: "drawImage demoBrowser (width twoStrokes, height twoStrokes)
      ''80x60:[M1,1L2,2#000000]'' = ''80x60:[M1,1L2,2#000000]''"
    "drawImage demoBrowser
      (width (undo demoBrowser twoStrokes), height (undo demoBrowser twoStrokes))
      ''80x60:[M1,1L2,2#000000][M3,3L4,4#000000]'' =
      ''80x60:[M1,1L2,2#000000][M3,3L4,4#000000]''" by code_simp+
  show ?thesis
    using undo_redo_steps [of "mount demoBrowser" demoBrowser] a
      undo_redo_steps [of twoStrokes demoBrowser "''data:image/png,80x60:[M1,1L2,2#000000]''"
        "''80x60:[M1,1L2,2#000000]''"] b c c' e
      undo_redo_steps [of "undo demoBrowser twoStrokes" demoBrowser _ _
        "''data:image/png,80x60:[M1,1L2,2#000000][M3,3L4,4#000000]''"
        "''80x60:[M1,1L2,2#000000][M3,3L4,4#000000]''"] d d' f
    by simp
qed

text \<open>
  Claim C4, as amended. When the canvas shows the entry under the cursor, as it does right
  after a commit or a replay, \<open>undo()\<close> followed by \<open>redo()\<close> restores the canvas pixels
  and the cursor, for every cursor above 0 that has an entry. The canvas shows an entry
  when the entry, decoded and drawn on the cleared canvas, gives the pixels that are there.
\<close>

theorem undo_redo_restores:
  assumes "contextRef s" and "0 < currentStep s"
    and "index (history s) (currentStep s) = Some h" and "h \<noteq> []"
    and "loadImage B h = Some img" and "drawImage B (width s, height s) img = canvas s"
  shows "canvas (redo B (undo B s)) = canvas s \<and>
         currentStep (redo B (undo B s)) = currentStep s"
proof -
  let ?u = "undo B s"
  have u: "currentStep ?u = currentStep s - 1" "history ?u = history s" "contextRef ?u"
    "width ?u = width s" "height ?u = height s"
    using assms(1,2) by (simp_all add: undo_def drawFromHistory_keeps)
  from assms(3) have "currentStep s < int (length (history s))"
    by (simp add: index_def split: if_splits)
  with u have lt: "currentStep ?u < int (length (history ?u)) - 1" by simp
  have r: "redo B ?u = drawFromHistory B (currentStep s) (?u\<lparr>currentStep := currentStep s\<rparr>)"
    using lt u(1) by (simp add: redo_def)
  have "canvas (drawFromHistory B (currentStep s) (?u\<lparr>currentStep := currentStep s\<rparr>)) =
      drawImage B (width s, height s) img"
    using drawFromHistory_replays(1)
      [of "?u\<lparr>currentStep := currentStep s\<rparr>" "currentStep s" h B img] assms u
    by simp
  with r assms(6) show ?thesis by (simp add: drawFromHistory_keeps)
qed

theorem undo_redo_restores_witness:
  "canvas (redo demoBrowser (undo demoBrowser twoStrokes)) = canvas twoStrokes \<and>
   currentStep (redo demoBrowser (undo demoBrowser twoStrokes)) = currentStep twoStrokes"
proof -
  have "contextRef twoStrokes" "0 < currentStep twoStrokes"
    "index (history twoStrokes) (currentStep twoStrokes) =
       Some ''data:image/png,80x60:[M1,1L2,2#000000][M3,3L4,4#000000]''"
    "''data:image/png,80x60:[M1,1L2,2#000000][M3,3L4,4#000000]'' \<noteq> []"
    "loadImage demoBrowser ''data:image/png,80x60:[M1,1L2,2#000000][M3,3L4,4#000000]'' =
       Some ''80x60:[M1,1L2,2#000000][M3,3L4,4#000000]''"
    "drawImage demoBrowser (width twoStrokes, height twoStrokes)
       ''80x60:[M1,1L2,2#000000][M3,3L4,4#000000]'' = canvas twoStrokes"
    by code_simp+
  then show ?thesis by (rule undo_redo_restores)
qed

text \<open>A layer switch repaints the canvas without committing, so the canvas need not show
  the entry under the cursor: with the cursor strictly inside the history, undo then redo
  then paints that entry over what was there.\<close>

theorem undo_redo_after_switch:
  "0 < currentStep switchedBack \<and>
   currentStep switchedBack < int (length (history switchedBack)) - 1 \<and>
   canvas (redo demoBrowser (undo demoBrowser switchedBack)) \<noteq> canvas switchedBack"
  by code_simp

subsection \<open>A decode that fails\<close>

lemma switchLayer_fails:
  assumes "find (\<lambda>l. layer_id l = i) (layers s) = Some l" and "loadImage B (data l) = None"
  shows "canvas (switchLayer B i s) = canvas s"
  using assms by (simp add: switchLayer_def Let_def onLoad_def)

lemma draw_preview_fails:
  assumes "isDrawing s" "contextRef s" "tool s = Rectangle \<or> tool s = Circle"
    and "find (\<lambda>l. layer_id l = activeLayer s) (layers s) = Some l"
    and "loadImage B (data l) = None"
  shows "canvas (draw B x y s) = blank B (width s, height s)"
  using assms by (auto simp: draw_def clearRect_def Let_def onLoad_def)

text \<open>
  Claim C5, as amended. When the raster does not decode, a layer switch leaves the canvas
  pixels as they were, while an undo, a redo and a shape preview leave the canvas cleared:
  they clear it before they start the decode. No handler reports the failure: each returns
  the session and nothing else.
\<close>

theorem failed_decode_canvas:
  "(find (\<lambda>l. layer_id l = i) (layers s) = Some l \<and> loadImage B (data l) = None \<longrightarrow>
      canvas (switchLayer B i s) = canvas s) \<and>
   (contextRef s \<and> 0 < currentStep s \<and> index (history s) (currentStep s - 1) = Some h \<and>
      loadImage B h = None \<longrightarrow> canvas (undo B s) = blank B (width s, height s)) \<and>
   (contextRef s \<and> currentStep s < int (length (history s)) - 1 \<and>
      index (history s) (currentStep s + 1) = Some h' \<and>
      loadImage B h' = None \<longrightarrow> canvas (redo B s) = blank B (width s, height s)) \<and>
   (isDrawing s \<and> contextRef s \<and> (tool s = Rectangle \<or> tool s = Circle) \<and>
      find (\<lambda>l. layer_id l = activeLayer s) (layers s) = Some l' \<and>
      loadImage B (data l') = None \<longrightarrow>
      canvas (draw B x y s) = blank B (width s, height s))"
  by (simp add: undo_def redo_def switchLayer_fails drawFromHistory_fails draw_preview_fails)

theorem failed_decode_canvas_witness:
  "canvas (switchLayer demoBrowser ''1'' brokenSession) = canvas brokenSession \<and>
   canvas (undo demoBrowser brokenSession) = ''80x60:'' \<and>
   canvas (redo demoBrowser brokenSession) = ''80x60:'' \<and>
   canvas (draw demoBrowser 50 30 brokenPreview) = ''80x60:''"
proof -
  let ?l = "\<lparr>layer_id = ''1'', layer_name = ''Layer 1'', visible = True, data = ''data:,''\<rparr>"
  have a: "find (\<lambda>l. layer_id l = ''1'') (layers brokenSession) = Some ?l"
    "loadImage demoBrowser (data ?l) = None"
    "contextRef brokenSession" "0 < currentStep brokenSession"
    "index (history brokenSession) (currentStep brokenSession - 1) = Some ''data:,''"
    "loadImage demoBrowser ''data:,'' = None"
    "currentStep brokenSession < int (length (history brokenSession)) - 1"
    "index (history brokenSession) (currentStep brokenSession + 1) = Some ''data:,''"
    by code_simp+
  have b: "isDrawing brokenPreview" "contextRef brokenPreview" "tool brokenPreview = Rectangle"
    "find (\<lambda>l. layer_id l = activeLayer brokenPreview) (layers brokenPreview) = Some ?l"
    by code_simp+
  have c: "blank demoBrowser (width brokenSession, height brokenSession) = ''80x60:''"
    "blank demoBrowser (width brokenPreview, height brokenPreview) = ''80x60:''"
    by code_simp+
  show ?thesis
    using failed_decode_canvas [of "''1''" brokenSession ?l demoBrowser "''data:,''" "''data:,''"] a
      failed_decode_canvas [of _ brokenPreview _ demoBrowser _ _ ?l 50 30] b c
    by simp
qed

text \<open>As the claim states it (the canvas exactly as before), it fails for an undo.\<close>

theorem failed_undo_clears_canvas:
  "canvas (undo demoBrowser brokenSession) \<noteq> canvas brokenSession"
  by code_simp

section \<open>Layers\<close>

lemma find_setLayerData:
  "find (\<lambda>l. layer_id l = i) (setLayerData a d ls) =
     map_option (\<lambda>l. if layer_id l = a then l\<lparr>data := d\<rparr> else l) (find (\<lambda>l. layer_id l = i) ls)"
  by (induction ls) (simp_all add: setLayerData_def)

lemma layerData_setLayerData:
  "layerData i (setLayerData a d ls) =
     (if i = a then map_option (\<lambda>_. d) (layerData i ls) else layerData i ls)"
  by (cases "find (\<lambda>l. layer_id l = i) ls")
     (auto simp: layerData_def find_setLayerData dest: find_Some_iff [THEN iffD1])

lemma switchLayer_fields:
  "layers (switchLayer B i s) = setLayerData (activeLayer s) (toDataURL B (canvas s)) (layers s)"
  "activeLayer (switchLayer B i s) = i"
  "contextRef (switchLayer B i s) = contextRef s"
  "width (switchLayer B i s) = width s"
  "height (switchLayer B i s) = height s"
  by (simp_all add: switchLayer_def Let_def onLoad_def split: option.splits)

lemma switchLayer_loads:
  assumes "contextRef s" "layerData i (layers s) = Some d" "d \<noteq> []" "loadImage B d = Some img"
  shows "canvas (switchLayer B i s) = drawImage B (width s, height s) img"
  using assms by (auto simp: switchLayer_def Let_def onLoad_def layerData_def)

text \<open>
  Claim C6, as amended. For two distinct layers \<open>a\<close> and \<open>b\<close>, where the raster of \<open>a\<close> has the
  size the canvas has now, \<open>switchLayer(a); switchLayer(b); switchLayer(a)\<close> with no drawing
  in between leaves the raster of layer \<open>a\<close> as it was before the first switch, and the
  canvas showing it. The raster of \<open>a\<close> is a snapshot the codec made and decodes back to
  the same pixels; it has the size of the canvas when drawing it on the cleared canvas
  gives the raster again.
\<close>

theorem switch_there_and_back:
  assumes "a \<noteq> b" and "contextRef s"
    and "layerData a (layers s) = Some (toDataURL B pA)"
    and "toDataURL B pA \<noteq> []" and "loadImage B (toDataURL B pA) = Some pA"
    and "drawImage B (width s, height s) pA = pA"
  shows "layerData a (layers (switchLayer B a (switchLayer B b (switchLayer B a s)))) =
           layerData a (layers s) \<and>
         canvas (switchLayer B a (switchLayer B b (switchLayer B a s))) = pA \<and>
         activeLayer (switchLayer B a (switchLayer B b (switchLayer B a s))) = a"
proof -
  let ?s1 = "switchLayer B a s"
  let ?s2 = "switchLayer B b ?s1"
  let ?s3 = "switchLayer B a ?s2"
  have c1: "canvas ?s1 = pA"
    using switchLayer_loads [of s a "toDataURL B pA" B pA] assms by simp
  have d1: "layerData a (layers ?s1) \<noteq> None"
    using assms(3) by (auto simp: switchLayer_fields layerData_setLayerData)
  have d2: "layerData a (layers ?s2) = Some (toDataURL B pA)"
    using d1 c1 by (auto simp: switchLayer_fields layerData_setLayerData)
  have c3: "canvas ?s3 = pA"
    using switchLayer_loads [of ?s2 a "toDataURL B pA" B pA] assms d2
    by (simp add: switchLayer_fields)
  have a2: "activeLayer ?s2 = b" by (simp add: switchLayer_fields)
  have "layers ?s3 = setLayerData b (toDataURL B (canvas ?s2)) (layers ?s2)"
    using a2 by (simp add: switchLayer_fields(1) [of B a ?s2])
  then have d3: "layerData a (layers ?s3) = Some (toDataURL B pA)"
    using d2 assms(1) by (simp add: layerData_setLayerData)
  show ?thesis using c3 d3 assms(3) by (simp add: switchLayer_fields)
qed

theorem switch_there_and_back_witness:
  "layerData ''2'' (layers (switchLayer demoBrowser ''2'' (switchLayer demoBrowser ''1''
      (switchLayer demoBrowser ''2'' twoLayers)))) = layerData ''2'' (layers twoLayers) \<and>
   canvas (switchLayer demoBrowser ''2'' (switchLayer demoBrowser ''1''
      (switchLayer demoBrowser ''2'' twoLayers))) = ''80x60:[M1,1L2,2#000000]'' \<and>
   activeLayer (switchLayer demoBrowser ''2'' (switchLayer demoBrowser ''1''
      (switchLayer demoBrowser ''2'' twoLayers))) = ''2''"
proof -
  have "''2'' \<noteq> ''1''" "contextRef twoLayers"
    "layerData ''2'' (layers twoLayers) =
       Some (toDataURL demoBrowser ''80x60:[M1,1L2,2#000000]'')"
    "toDataURL demoBrowser ''80x60:[M1,1L2,2#000000]'' \<noteq> []"
    "loadImage demoBrowser (toDataURL demoBrowser ''80x60:[M1,1L2,2#000000]'') =
       Some ''80x60:[M1,1L2,2#000000]''"
    "drawImage demoBrowser (width twoLayers, height twoLayers) ''80x60:[M1,1L2,2#000000]'' =
       ''80x60:[M1,1L2,2#000000]''"
    by code_simp+
  then show ?thesis by (rule switch_there_and_back)
qed

text \<open>A raster is drawn as it is, not scaled (line 304), and the next switch stores the canvas
  at its present size (line 287): after the window was resized, the three switches leave
  layer 1 with another raster than it had, although nothing was drawn.\<close>

theorem switch_after_resize:
  "layerData ''1'' (layers (switchLayer demoBrowser ''1'' (switchLayer demoBrowser ''2''
      (switchLayer demoBrowser ''1'' resized)))) \<noteq> layerData ''1'' (layers resized)"
  by code_simp

section \<open>Shape previews\<close>

lemma startDrawing_fields:
  assumes "contextRef s"
  shows "isDrawing (startDrawing B ax ay s)" "contextRef (startDrawing B ax ay s)"
    "startX (startDrawing B ax ay s) = ax" "startY (startDrawing B ax ay s) = ay"
    "layers (startDrawing B ax ay s) = layers s"
    "activeLayer (startDrawing B ax ay s) = activeLayer s"
    "tool (startDrawing B ax ay s) = tool s" "color (startDrawing B ax ay s) = color s"
    "brushSize (startDrawing B ax ay s) = brushSize s"
    "width (startDrawing B ax ay s) = width s" "height (startDrawing B ax ay s) = height s"
  using assms
  by (simp_all add: startDrawing_def setIsDrawing_def commitEffect_def Let_def)

lemma draw_preview:
  assumes "isDrawing s" "contextRef s" "tool s = Rectangle \<or> tool s = Circle"
    and "layerData (activeLayer s) (layers s) = Some d" "d \<noteq> []" "loadImage B d = Some img"
  shows "canvas (draw B x y s) =
           stroke B (shapePath (tool s) (startX s) (startY s) x y) (color s) (brushSize s)
             (drawImage B (width s, height s) img)"
    and "path (draw B x y s) = shapePath (tool s) (startX s) (startY s) x y"
  using assms by (auto simp: draw_def clearRect_def Let_def onLoad_def layerData_def)

text \<open>
  Claim C7. For every anchor and every current pointer point of a shape preview, the
  rectangle tool strokes the axis-aligned rectangle whose opposite corners are the anchor
  and the current point, over the raster of the active layer drawn on the cleared canvas; the circle tool strokes the
  circle around the anchor with radius \<open>max \<bar>dx\<bar> \<bar>dy\<bar>\<close>, one radius and no ellipse.
  Anchor \<open>(10, 10)\<close> and point \<open>(50, 30)\<close> give width 40 and height 20; anchor
  \<open>(10, 10)\<close> and point \<open>(40, 10)\<close> give radius 30.
\<close>

theorem shape_preview:
  assumes "contextRef s"
    and "layerData (activeLayer s) (layers s) = Some d" and "d \<noteq> []"
    and "loadImage B d = Some img"
  shows "(tool s = Rectangle \<longrightarrow>
           canvas (draw B x y (moves B ms (startDrawing B ax ay s))) =
             stroke B [Rect ax ay (x - ax) (y - ay)] (color s) (brushSize s)
               (drawImage B (width s, height s) img) \<and>
           map corners (path (draw B x y (moves B ms (startDrawing B ax ay s)))) =
             [Some ((ax, ay), (x, y))]) \<and>
         (tool s = Circle \<longrightarrow>
           canvas (draw B x y (moves B ms (startDrawing B ax ay s))) =
             stroke B [Arc ax ay (max \<bar>x - ax\<bar> \<bar>y - ay\<bar>)] (color s) (brushSize s)
               (drawImage B (width s, height s) img))"
proof -
  let ?m = "moves B ms (startDrawing B ax ay s)"
  have m: "isDrawing ?m" "contextRef ?m" "tool ?m = tool s" "color ?m = color s"
    "brushSize ?m = brushSize s" "startX ?m = ax" "startY ?m = ay"
    "layerData (activeLayer ?m) (layers ?m) = Some d"
    "width ?m = width s" "height ?m = height s"
    using assms(1,2) by (simp_all add: moves_keep startDrawing_fields)
  show ?thesis
  proof (intro conjI impI)
    assume t: "tool s = Rectangle"
    with m have "tool ?m = Rectangle \<or> tool ?m = Circle" by simp
    from draw_preview [OF m(1,2) this m(8) assms(3,4), of x y] m t
    show "canvas (draw B x y ?m) = stroke B [Rect ax ay (x - ax) (y - ay)] (color s)
        (brushSize s) (drawImage B (width s, height s) img)"
      and "map corners (path (draw B x y ?m)) = [Some ((ax, ay), (x, y))]"
      by (simp_all add: shapePath_def)
  next
    assume t: "tool s = Circle"
    with m have "tool ?m = Rectangle \<or> tool ?m = Circle" by simp
    from draw_preview [OF m(1,2) this m(8) assms(3,4), of x y] m t
    show "canvas (draw B x y ?m) =
        stroke B [Arc ax ay (max \<bar>x - ax\<bar> \<bar>y - ay\<bar>)] (color s) (brushSize s)
          (drawImage B (width s, height s) img)"
      by (simp add: shapePath_def Let_def)
  qed
qed

theorem shape_preview_witness:
  "canvas (draw demoBrowser 50 30 (moves demoBrowser [(20, 20)]
      (startDrawing demoBrowser 10 10 (setTool Rectangle (mount demoBrowser))))) =
     stroke demoBrowser [Rect 10 10 40 20] ''#000000'' 5 ''80x60:'' \<and>
   map corners (path (draw demoBrowser 50 30 (moves demoBrowser [(20, 20)]
      (startDrawing demoBrowser 10 10 (setTool Rectangle (mount demoBrowser)))))) =
     [Some ((10, 10), (50, 30))] \<and>
   canvas (draw demoBrowser 40 10 (moves demoBrowser [(20, 20)]
      (startDrawing demoBrowser 10 10 (setTool Circle (mount demoBrowser))))) =
     stroke demoBrowser [Arc 10 10 30] ''#000000'' 5 ''80x60:''"
proof -
  have r: "contextRef (setTool Rectangle (mount demoBrowser))"
    "layerData (activeLayer (setTool Rectangle (mount demoBrowser)))
       (layers (setTool Rectangle (mount demoBrowser))) = Some ''data:image/png,80x60:''"
    "''data:image/png,80x60:'' \<noteq> []"
    "loadImage demoBrowser ''data:image/png,80x60:'' = Some ''80x60:''"
    "tool (setTool Rectangle (mount demoBrowser)) = Rectangle"
    "color (setTool Rectangle (mount demoBrowser)) = ''#000000''"
    "brushSize (setTool Rectangle (mount demoBrowser)) = 5"
    "drawImage demoBrowser (width (setTool Rectangle (mount demoBrowser)),
       height (setTool Rectangle (mount demoBrowser))) ''80x60:'' = ''80x60:''"
    by code_simp+
  have c: "contextRef (setTool Circle (mount demoBrowser))"
    "layerData (activeLayer (setTool Circle (mount demoBrowser)))
       (layers (setTool Circle (mount demoBrowser))) = Some ''data:image/png,80x60:''"
    "tool (setTool Circle (mount demoBrowser)) = Circle"
    "color (setTool Circle (mount demoBrowser)) = ''#000000''"
    "brushSize (setTool Circle (mount demoBrowser)) = 5"
    "drawImage demoBrowser (width (setTool Circle (mount demoBrowser)),
       height (setTool Circle (mount demoBrowser))) ''80x60:'' = ''80x60:''"
    by code_simp+
  show ?thesis
    using shape_preview [OF r(1,2,3,4), of 50 30 "[(20, 20)]" 10 10] r(5,6,7,8)
      shape_preview [OF c(1,2) r(3,4), of 40 10 "[(20, 20)]" 10 10] c(3,4,5,6)
    by simp
qed

section \<open>New layers\<close>

subsection \<open>Numbers below \<open>2 ^ 53\<close> are exact\<close>

lemma spare_small: "a < 2 ^ 53 \<Longrightarrow> spare a = 0"
  by (simp add: spare.simps)

lemma toNumber_exact: "\<bar>i\<bar> < 2 ^ 53 \<Longrightarrow> toNumber i = Num i"
  by (auto simp: toNumber_def spare_small Let_def)

lemma spare_large: "2 ^ 53 \<le> a \<Longrightarrow> 1 \<le> spare a \<and> 2 ^ 52 \<le> a div 2 ^ spare a"
proof (induction a rule: spare.induct)
  case (1 a)
  show ?case
  proof (cases "a div 2 < 2 ^ 53")
    case True
    with "1.prems" have "spare a = Suc 0"
      by (simp add: spare.simps [of a] spare_small)
    moreover from "1.prems" have "2 ^ 52 \<le> a div 2" by simp
    ultimately show ?thesis by simp
  next
    case False
    with "1.IH" "1.prems" have ih: "2 ^ 52 \<le> (a div 2) div 2 ^ spare (a div 2)" by simp
    from "1.prems" have s: "spare a = Suc (spare (a div 2))" by (simp add: spare.simps [of a])
    have "a div 2 ^ spare a = (a div 2) div 2 ^ spare (a div 2)"
      unfolding s by (simp add: div_mult2_eq [symmetric] zdiv_zmult2_eq)
    with ih s show ?thesis by simp
  qed
qed

lemma toNumber_large:
  assumes "2 ^ 53 \<le> c" and "toNumber c = Num m"
  shows "2 ^ 53 \<le> m"
proof -
  let ?e = "spare c"
  let ?q = "c div 2 ^ ?e"
  let ?r = "c mod 2 ^ ?e"
  let ?q' = "if 2 ^ ?e < 2 * ?r \<or> (2 * ?r = 2 ^ ?e \<and> odd ?q) then ?q + 1 else ?q"
  have "(0::int) < 2 ^ 53" by simp
  with assms(1) have c: "0 \<le> c" "\<bar>c\<bar> = c" "\<not> c < 0" by linarith+
  from spare_large [OF assms(1)] have e: "1 \<le> ?e" and q: "2 ^ 52 \<le> ?q" by simp_all
  from assms(2) c have m: "m = ?q' * 2 ^ ?e"
    by (auto simp: toNumber_def Let_def split: if_splits)
  have "(2::int) ^ 52 * 2 ^ 1 \<le> ?q' * 2 ^ ?e"
  proof (rule mult_mono)
    show "(2::int) ^ 52 \<le> ?q'" using q by simp
    show "(2::int) ^ 1 \<le> 2 ^ ?e" using e by (intro power_increasing) simp_all
    have "(0::int) \<le> 2 ^ 52" by simp
    with q show "(0::int) \<le> ?q'" by (simp add: order_trans [OF _ q])
  qed simp
  with m show ?thesis by simp
qed

lemma shortest_sound:
  assumes "0 < v" and "shortest v e0 = (s, e)"
  shows "0 < s \<and> (s = v \<and> e = 0 \<or> toNumber (s * 10 ^ e) = Num v)"
  using assms(2)
proof (induction e0)
  case 0
  with assms(1) show ?case by simp
next
  case (Suc e0)
  from assms(1) have lo: "0 \<le> v div 10 ^ Suc e0"
    by (simp add: pos_imp_zdiv_nonneg_iff)
  from Suc.prems Suc.IH lo show ?case
    by (auto simp: Let_def split: if_splits)
qed

lemma digits_times10: "0 < s \<Longrightarrow> digits (s * 10) = digits s @ ''0''"
  by (subst digits.simps) (simp add: digitChar_def)

lemma digits_pow10: "0 < s \<Longrightarrow> digits (s * 10 ^ e) = digits s @ replicate e (CHR ''0'')"
proof (induction e)
  case 0
  then show ?case by simp
next
  case (Suc e)
  from Suc.prems have "0 < s * 10 ^ e" by simp
  from digits_times10 [OF this] Suc show ?case
    by (simp add: mult.assoc mult.commute [of 10] replicate_append_same)
qed

lemma length_digits: "0 < k \<Longrightarrow> v < 10 ^ k \<Longrightarrow> length (digits v) \<le> k"
proof (induction k arbitrary: v)
  case 0
  then show ?case by simp
next
  case (Suc k)
  show ?case
  proof (cases "v < 10")
    case True
    then show ?thesis by (simp add: digits.simps [of v])
  next
    case False
    then have k: "0 < k" using Suc.prems(2) by (cases k) auto
    from Suc.prems(2) have "v div 10 < 10 ^ k" by simp
    with Suc.IH k have "length (digits (v div 10)) \<le> k" by simp
    with False show ?thesis by (simp add: digits.simps [of v])
  qed
qed

lemma positiveToString_exact:
  assumes "0 < v" and "v < 2 ^ 53"
  shows "positiveToString v = digits v"
proof -
  obtain s e where se: "shortest v (length (digits v)) = (s, e)" by (cases "shortest v (length (digits v))")
  from shortest_sound [OF assms(1) se] have s: "0 < s"
    and alt: "s = v \<and> e = 0 \<or> toNumber (s * 10 ^ e) = Num v" by simp_all
  have eq: "s * 10 ^ e = v"
  proof (cases "s = v \<and> e = 0")
    case True
    then show ?thesis by simp
  next
    case False
    with alt have t: "toNumber (s * 10 ^ e) = Num v" by simp
    show ?thesis
    proof (cases "s * 10 ^ e < 2 ^ 53")
      case True
      moreover from s have "0 \<le> s * 10 ^ e" by simp
      ultimately have "toNumber (s * 10 ^ e) = Num (s * 10 ^ e)"
        by (intro toNumber_exact) simp
      with t show ?thesis by simp
    next
      case False
      then have "2 ^ 53 \<le> s * 10 ^ e" by simp
      from toNumber_large [OF this t] assms(2) show ?thesis by simp
    qed
  qed
  from digits_pow10 [OF s, of e] eq have d: "digits s @ replicate e (CHR ''0'') = digits v"
    by simp
  from assms(2) have "v < 10 ^ 16" by simp
  then have "length (digits v) \<le> 16" by (intro length_digits) simp_all
  moreover from d have "length (digits s) + e = length (digits v)"
    by (metis length_append length_replicate)
  ultimately show ?thesis using d by (simp add: positiveToString_def se)
qed

lemma numberToString_exact: "\<bar>i\<bar> < 2 ^ 53 \<Longrightarrow> numberToString (Num i) = decimal i"
  by (auto simp: numberToString_def decimal_def positiveToString_exact digits.simps [of 0]
      digitChar_def)

lemma plusOne_exact: "\<bar>i + 1\<bar> < 2 ^ 53 \<Longrightarrow> plusOne (Num i) = Num (i + 1)"
  by (simp add: plusOne_def toNumber_exact)

subsection \<open>\<open>parseInt\<close> reads back what \<open>toString\<close> wrote\<close>

lemma digit_cases:
  "d < (10::nat) \<Longrightarrow>
     d = 0 \<or> d = 1 \<or> d = 2 \<or> d = 3 \<or> d = 4 \<or> d = 5 \<or> d = 6 \<or> d = 7 \<or> d = 8 \<or> d = 9"
  by arith

lemma digitValue_digitChar: "d < 10 \<Longrightarrow> digitValue (digitChar d) = Some d"
  by (drule digit_cases) (auto simp: digitChar_def digitValue_def)

lemma digitChar_plain:
  assumes "d < 10"
  shows "isDigitIn 10 (digitChar d)" "\<not> isWhiteSpace (digitChar d)"
    "digitChar d \<noteq> CHR ''+''" "digitChar d \<noteq> CHR ''-''"
    "digitChar d \<noteq> CHR ''x''" "digitChar d \<noteq> CHR ''X''"
  using digit_cases [OF assms]
  by (auto simp: digitChar_def digitValue_def isDigitIn_def isWhiteSpace_def)

lemma digits_chars: "c \<in> set (digits n) \<Longrightarrow> \<exists>d<10. c = digitChar d"
proof (induction n arbitrary: c rule: digits.induct)
  case (1 n)
  show ?case
  proof (cases "n < 10")
    case True
    then have "nat n < 10" by simp
    with True "1.prems" show ?thesis by (auto simp: digits.simps [of n])
  next
    case False
    with "1.prems" have "c \<in> set (digits (n div 10)) \<or> c = digitChar (nat (n mod 10))"
      by (auto simp: digits.simps [of n])
    then show ?thesis
    proof
      assume "c \<in> set (digits (n div 10))"
      with False "1.IH" show ?thesis by simp
    next
      assume "c = digitChar (nat (n mod 10))"
      moreover have "nat (n mod 10) < 10" by simp
      ultimately show ?thesis by blast
    qed
  qed
qed

lemma digits_nonempty: "digits n \<noteq> []"
  by (subst digits.simps) simp

lemma digitsValue_snoc:
  "d < 10 \<Longrightarrow> digitsValue 10 (ds @ [digitChar d]) = digitsValue 10 ds * 10 + int d"
  by (simp add: digitsValue_def digitValue_digitChar)

lemma digitsValue_digits: "0 \<le> n \<Longrightarrow> digitsValue 10 (digits n) = n"
proof (induction n rule: digits.induct)
  case (1 n)
  show ?case
  proof (cases "n < 10")
    case True
    then have "nat n < 10" by simp
    then have "digitsValue 10 ([] @ [digitChar (nat n)]) = digitsValue 10 [] * 10 + int (nat n)"
      by (rule digitsValue_snoc)
    with True "1.prems" show ?thesis by (simp add: digits.simps [of n] digitsValue_def)
  next
    case False
    have "nat (n mod 10) < 10" by simp
    from digitsValue_snoc [OF this, of "digits (n div 10)"] False "1.IH" "1.prems"
    show ?thesis by (simp add: digits.simps [of n])
  qed
qed

lemma parseInt_digits:
  assumes "0 \<le> n"
  shows "parseInt (digits n) = toNumber n"
proof -
  let ?s = "digits n"
  obtain c cs where s: "?s = c # cs" using digits_nonempty [of n] by (cases ?s) auto
  have all: "\<And>c'. c' \<in> set ?s \<Longrightarrow> isDigitIn 10 c' \<and> \<not> isWhiteSpace c' \<and> c' \<noteq> CHR ''+'' \<and>
      c' \<noteq> CHR ''-'' \<and> c' \<noteq> CHR ''x'' \<and> c' \<noteq> CHR ''X''"
  proof -
    fix c' assume "c' \<in> set ?s"
    then obtain d where "d < 10" "c' = digitChar d" using digits_chars by blast
    then show "isDigitIn 10 c' \<and> \<not> isWhiteSpace c' \<and> c' \<noteq> CHR ''+'' \<and>
      c' \<noteq> CHR ''-'' \<and> c' \<noteq> CHR ''x'' \<and> c' \<noteq> CHR ''X''"
      using digitChar_plain [of d] by simp
  qed
  have c: "\<not> isWhiteSpace c" "c \<noteq> CHR ''+''" "c \<noteq> CHR ''-''" using all [of c] s by simp_all
  have nohex: "take 2 ?s \<noteq> ''0x''" "take 2 ?s \<noteq> ''0X''"
  proof -
    show "take 2 ?s \<noteq> ''0x''"
    proof
      assume "take 2 ?s = ''0x''"
      then have "CHR ''x'' \<in> set (take 2 ?s)" by simp
      then have "CHR ''x'' \<in> set ?s" by (rule in_set_takeD)
      with all show False by blast
    qed
    show "take 2 ?s \<noteq> ''0X''"
    proof
      assume "take 2 ?s = ''0X''"
      then have "CHR ''X'' \<in> set (take 2 ?s)" by simp
      then have "CHR ''X'' \<in> set ?s" by (rule in_set_takeD)
      with all show False by blast
    qed
  qed
  have tw: "takeWhile (isDigitIn 10) ?s = ?s" using all by (simp add: takeWhile_eq_all_conv)
  have dw: "dropWhile isWhiteSpace ?s = ?s" using s c by simp
  have t1: "take 1 ?s = [c]" using s by simp
  show ?thesis
    unfolding parseInt_def dw Let_def t1
    using c nohex digits_nonempty [of n] assms by (simp add: tw digitsValue_digits)
qed

lemma parseInt_decimal: "0 \<le> i \<Longrightarrow> i < 2 ^ 53 \<Longrightarrow> parseInt (decimal i) = Num i"
  by (simp add: decimal_def parseInt_digits toNumber_exact)

lemma parseInt_Nil: "parseInt [] = NaN"
  by (simp add: parseInt_def)

lemma decimal_nonempty: "decimal i \<noteq> []"
  by (simp add: decimal_def digits_nonempty)

subsection \<open>The id of a new layer\<close>

lemma sorted_last_Max: "sorted ns \<Longrightarrow> ns \<noteq> [] \<Longrightarrow> last ns = Max (set (ns :: int list))"
proof (induction ns)
  case Nil
  then show ?case by simp
next
  case (Cons n ns)
  show ?case
  proof (cases "ns = []")
    case True
    then show ?thesis by simp
  next
    case False
    with Cons have "last ns = Max (set ns)" by simp
    moreover from False have "last ns \<in> set ns" by simp
    moreover from Cons.prems have "\<forall>x\<in>set ns. n \<le> x" by simp
    ultimately show ?thesis using False by (auto simp: max_def)
  qed
qed

lemma newLayerId_last:
  assumes "ls \<noteq> []" and "parseInt (layer_id (last ls)) = Num n" and "\<bar>n + 1\<bar> < 2 ^ 53"
  shows "newLayerId ls = decimal (n + 1)"
proof -
  from assms(2) have "layer_id (last ls) \<noteq> []" by (auto simp: parseInt_Nil)
  with assms show ?thesis
    by (simp add: newLayerId_def lastIdOrZero_def plusOne_exact numberToString_exact)
qed

text \<open>From \<open>10 ^ 21\<close> on a Number is written with an exponent.\<close>

lemma numberToString_exponent:
  "numberToString (toNumber (10 ^ 21)) = ''1e+21''"
  "numberToString (toNumber (2 ^ 60)) = ''1152921504606847000''"
  by code_simp+

text \<open>Beyond \<open>2 ^ 53\<close> the sum is rounded: the new id is the id of the last layer again.\<close>

lemma newLayerId_rounds:
  "newLayerId (layers (withLayerIds [''9007199254740992''])) = ''9007199254740992''"
  by code_simp

text \<open>
  Claim C8, as amended. For every layer store whose ids are numeric and ascending in the
  order of the store, as \<open>addLayer\<close> itself builds them, and whose highest id plus one is
  below \<open>2 ^ 53\<close> in absolute value, where the sum is exact, \<open>addLayer()\<close> creates a layer
  whose id is the increment of the highest id, which is the id of the last layer (on ids
  1, 2 the new id is 3; on ids 1, 3 it is 4, not the smallest unused). The new layer holds
  the snapshot of the pixels now on the canvas, comes after all existing layers and is
  the active layer.
\<close>

theorem addLayer_increments_last:
  assumes "layers s \<noteq> []"
    and "map (\<lambda>l. parseInt (layer_id l)) (layers s) = map Num ns" and "sorted ns"
    and "\<bar>Max (set ns) + 1\<bar> < 2 ^ 53"
  shows "layers (addLayer B s) =
           layers s @ [\<lparr>layer_id = decimal (Max (set ns) + 1),
                        layer_name = ''Layer '' @ decimal (Max (set ns) + 1),
                        visible = True, data = toDataURL B (canvas s)\<rparr>] \<and>
         activeLayer (addLayer B s) = decimal (Max (set ns) + 1)"
proof -
  from assms(1,2) have ne: "ns \<noteq> []" by auto
  have "parseInt (layer_id (last (layers s))) = last (map (\<lambda>l. parseInt (layer_id l)) (layers s))"
    using assms(1) by (simp add: last_map)
  also have "\<dots> = Num (last ns)" using ne by (simp add: assms(2) last_map)
  finally have "parseInt (layer_id (last (layers s))) = Num (Max (set ns))"
    using sorted_last_Max [OF assms(3) ne] by simp
  from newLayerId_last [OF assms(1) this assms(4)] show ?thesis
    by (simp add: addLayer_def Let_def)
qed

theorem addLayer_increments_last_witness:
  "map layer_id (layers (addLayer demoBrowser (withLayerIds [''1'', ''2'']))) =
     [''1'', ''2'', ''3''] \<and>
   activeLayer (addLayer demoBrowser (withLayerIds [''1'', ''2''])) = ''3'' \<and>
   map layer_id (layers (addLayer demoBrowser (withLayerIds [''1'', ''3'']))) =
     [''1'', ''3'', ''4''] \<and>
   activeLayer (addLayer demoBrowser (withLayerIds [''1'', ''3''])) = ''4'' \<and>
   data (last (layers (addLayer demoBrowser (withLayerIds [''1'', ''3''])))) =
     toDataURL demoBrowser (canvas (withLayerIds [''1'', ''3'']))"
proof -
  have a: "layers (withLayerIds [''1'', ''2'']) \<noteq> []"
    "map (\<lambda>l. parseInt (layer_id l)) (layers (withLayerIds [''1'', ''2''])) = map Num [1, 2]"
    "sorted [1, 2 :: int]" "\<bar>Max (set [1, 2 :: int]) + 1\<bar> < 2 ^ 53"
    "decimal (Max (set [1, 2]) + 1) = ''3''"
    "map layer_id (layers (withLayerIds [''1'', ''2''])) = [''1'', ''2'']"
    by code_simp+
  have b: "layers (withLayerIds [''1'', ''3'']) \<noteq> []"
    "map (\<lambda>l. parseInt (layer_id l)) (layers (withLayerIds [''1'', ''3''])) = map Num [1, 3]"
    "sorted [1, 3 :: int]" "\<bar>Max (set [1, 3 :: int]) + 1\<bar> < 2 ^ 53"
    "decimal (Max (set [1, 3]) + 1) = ''4''"
    "map layer_id (layers (withLayerIds [''1'', ''3''])) = [''1'', ''3'']"
    by code_simp+
  show ?thesis
    using addLayer_increments_last [OF a(1,2,3,4), of demoBrowser] a(5,6)
      addLayer_increments_last [OF b(1,2,3,4), of demoBrowser] b(5,6)
    by simp
qed

text \<open>The id is taken from the last layer, whatever the other ids are: on a store with ids
  3, 1 the new id is 2, and not 4.\<close>

theorem addLayer_takes_last_not_highest:
  "map layer_id (layers (addLayer demoBrowser (withLayerIds [''3'', ''1'']))) =
     [''3'', ''1'', ''2''] \<and>
   activeLayer (addLayer demoBrowser (withLayerIds [''3'', ''1''])) \<noteq>
     decimal (Max (set [3, 1]) + 1)"
  by code_simp

section \<open>The session invariant\<close>

lemma layer_id_setLayerData: "map layer_id (setLayerData a d ls) = map layer_id ls"
  by (induction ls) (simp_all add: setLayerData_def)

lemma toolEffect_layers:
  "layerIds (toolEffect s) = layerIds s" "activeLayer (toolEffect s) = activeLayer s"
  by (simp_all add: toolEffect_def layerIds_def)

lemma commitEffect_layers:
  "layerIds (commitEffect B s) = layerIds s" "activeLayer (commitEffect B s) = activeLayer s"
  by (simp_all add: commitEffect_def layerIds_def Let_def layer_id_setLayerData)

lemma setIsDrawing_layers:
  "layerIds (setIsDrawing B b s) = layerIds s" "activeLayer (setIsDrawing B b s) = activeLayer s"
  using commitEffect_layers [of B "s\<lparr>isDrawing := b\<rparr>"]
  by (simp_all add: setIsDrawing_def layerIds_def)

lemma drawFromHistory_layers:
  "layerIds (drawFromHistory B k s) = layerIds s"
  "activeLayer (drawFromHistory B k s) = activeLayer s"
  by (simp_all add: drawFromHistory_def clearRect_def layerIds_def Let_def onLoad_def
      layer_id_setLayerData split: option.splits)

lemma step_layers:
  assumes "e \<noteq> AddLayer" and "\<And>i. e \<noteq> SwitchLayer i"
  shows "layerIds (step B s e) = layerIds s \<and> activeLayer (step B s e) = activeLayer s"
proof (cases e)
  case (SetTool k)
  then show ?thesis using toolEffect_layers [of "s\<lparr>tool := k\<rparr>"]
    by (simp add: setTool_def layerIds_def)
next
  case (SetColor c)
  then show ?thesis using toolEffect_layers [of "s\<lparr>color := c\<rparr>"]
    by (simp add: setColor_def layerIds_def)
next
  case IncreaseSize
  then show ?thesis using toolEffect_layers [of "s\<lparr>brushSize := min (brushSize s + 1) 30\<rparr>"]
    by (simp add: increaseSize_def setBrushSize_def layerIds_def)
next
  case DecreaseSize
  then show ?thesis using toolEffect_layers [of "s\<lparr>brushSize := max (brushSize s - 1) 1\<rparr>"]
    by (simp add: decreaseSize_def setBrushSize_def layerIds_def)
next
  case ToggleDarkMode
  then show ?thesis by (simp add: toggleDarkMode_def layerIds_def)
next
  case (PointerDown x y)
  then show ?thesis
    using setIsDrawing_layers [of B True "s\<lparr>startX := x, startY := y\<rparr>"]
      setIsDrawing_layers [of B True "s\<lparr>startX := x, startY := y, path := [MoveTo x y]\<rparr>"]
    by (simp add: startDrawing_def Let_def layerIds_def)
next
  case (PointerMove x y)
  then show ?thesis by (simp add: draw_keeps layerIds_def)
next
  case PointerUp
  then show ?thesis
    using setIsDrawing_layers [of B False s]
      setIsDrawing_layers [of B False "s\<lparr>path := path s @ [ClosePath]\<rparr>"]
    by (simp add: stopDrawing_def Let_def layerIds_def)
next
  case Undo
  then show ?thesis
    using drawFromHistory_layers [of B "currentStep s - 1" "s\<lparr>currentStep := currentStep s - 1\<rparr>"]
    by (simp add: undo_def layerIds_def)
next
  case Redo
  then show ?thesis
    using drawFromHistory_layers [of B "currentStep s + 1" "s\<lparr>currentStep := currentStep s + 1\<rparr>"]
    by (simp add: redo_def layerIds_def)
next
  case Clear
  then show ?thesis by (simp add: clearCanvas_def Let_def layerIds_def layer_id_setLayerData)
next
  case AddLayer
  with assms show ?thesis by simp
next
  case (ToggleVisibility i)
  then show ?thesis by (simp add: toggleLayerVisibility_def layerIds_def comp_def if_distrib)
next
  case (SwitchLayer i)
  with assms(2) [of i] show ?thesis by blast
next
  case Download
  then show ?thesis by simp
next
  case (Resize w h)
  then show ?thesis by (simp add: resizeCanvas_def layerIds_def)
qed

lemma switchLayer_layers:
  "layerIds (switchLayer B i s) = layerIds s" "activeLayer (switchLayer B i s) = i"
  by (simp_all add: switchLayer_fields layerIds_def layer_id_setLayerData)

lemma addLayer_counted:
  assumes "idsCounted s" and "int (length (layers s)) + 1 < 2 ^ 53"
  shows "idsCounted (addLayer B s)" "activeLayer (addLayer B s) \<in> set (layerIds (addLayer B s))"
proof -
  let ?n = "length (layers s)"
  let ?f = "\<lambda>k. decimal (int k)"
  from assms have ne: "layers s \<noteq> []" and ids: "map layer_id (layers s) = map ?f [1..<Suc ?n]"
    by (simp_all add: idsCounted_def layerIds_def)
  from ne have n: "0 < ?n" by simp
  have "layer_id (last (layers s)) = last (map layer_id (layers s))"
    using ne by (simp add: last_map)
  also have "\<dots> = ?f ?n"
  proof -
    from n obtain m where "?n = Suc m" by (cases ?n) auto
    then show ?thesis by (simp add: ids)
  qed
  finally have "parseInt (layer_id (last (layers s))) = Num (int ?n)"
    using assms(2) by (simp add: parseInt_decimal)
  from newLayerId_last [OF ne this] assms(2) have new: "newLayerId (layers s) = ?f (Suc ?n)"
    by (simp add: add.commute)
  show "idsCounted (addLayer B s)"
    using ids new by (simp add: idsCounted_def layerIds_def addLayer_def Let_def)
  show "activeLayer (addLayer B s) \<in> set (layerIds (addLayer B s))"
    by (simp add: layerIds_def addLayer_def Let_def)
qed

lemma step_grows: "length (layers s) \<le> length (layers (step B s e))"
proof (cases "e = AddLayer \<or> (\<exists>i. e = SwitchLayer i)")
  case False
  then have "layerIds (step B s e) = layerIds s \<and> activeLayer (step B s e) = activeLayer s"
    by (intro step_layers) auto
  then have "length (layers (step B s e)) = length (layers s)"
    by (metis layerIds_def length_map)
  then show ?thesis by simp
next
  case True
  then show ?thesis
  proof
    assume "e = AddLayer"
    then show ?thesis by (simp add: addLayer_def Let_def)
  next
    assume "\<exists>i. e = SwitchLayer i"
    then obtain i where e: "e = SwitchLayer i" ..
    have "length (layers (switchLayer B i s)) = length (layers s)"
      by (metis layerIds_def length_map switchLayer_layers(1))
    with e show ?thesis by simp
  qed
qed

lemma step_counted:
  assumes "idsCounted s" "activeLayer s \<in> set (layerIds s)" "admissible s e"
    and "int (length (layers (step B s e))) < 2 ^ 53"
  shows "idsCounted (step B s e) \<and> activeLayer (step B s e) \<in> set (layerIds (step B s e))"
proof (cases "e = AddLayer \<or> (\<exists>i. e = SwitchLayer i)")
  case False
  then have "layerIds (step B s e) = layerIds s \<and> activeLayer (step B s e) = activeLayer s"
    by (intro step_layers) auto
  moreover from this have "length (layers (step B s e)) = length (layers s)"
    by (metis layerIds_def length_map)
  ultimately show ?thesis using assms(1,2) by (auto simp: idsCounted_def)
next
  case True
  then show ?thesis
  proof
    assume e: "e = AddLayer"
    with assms(4) have "int (length (layers s)) + 1 < 2 ^ 53"
      by (simp add: addLayer_def Let_def)
    from addLayer_counted [OF assms(1) this, of B] e show ?thesis by simp
  next
    assume "\<exists>i. e = SwitchLayer i"
    then obtain i where e: "e = SwitchLayer i" ..
    have "length (layers (switchLayer B i s)) = length (layers s)"
      by (metis layerIds_def length_map switchLayer_layers(1))
    with e assms show ?thesis by (auto simp: idsCounted_def switchLayer_layers)
  qed
qed

lemma counted_distinct:
  assumes "idsCounted s" and "int (length (layers s)) < 2 ^ 53"
  shows "distinct (layerIds s)"
proof -
  let ?f = "\<lambda>k. decimal (int k)"
  have "inj_on ?f (set [1..<Suc (length (layers s))])"
  proof (rule inj_onI)
    fix a b
    assume a: "a \<in> set [1..<Suc (length (layers s))]"
      and b: "b \<in> set [1..<Suc (length (layers s))]" and eq: "?f a = ?f b"
    from a b assms(2) have "int a < 2 ^ 53" "int b < 2 ^ 53" by auto
    then have pa: "parseInt (?f a) = Num (int a)" and pb: "parseInt (?f b) = Num (int b)"
      by (simp_all add: parseInt_decimal)
    from eq have "parseInt (?f a) = parseInt (?f b)" by (rule arg_cong)
    then have "Num (int a) = Num (int b)" unfolding pa pb .
    then show "a = b" by simp
  qed
  with assms(1) show ?thesis by (simp add: idsCounted_def distinct_map)
qed

lemma distinct_one_match:
  "distinct (map f xs) \<Longrightarrow> a \<in> f ` set xs \<Longrightarrow> length (filter (\<lambda>x. f x = a) xs) = 1"
proof (induction xs)
  case Nil
  then show ?case by simp
next
  case (Cons x xs)
  show ?case
  proof (cases "f x = a")
    case True
    from Cons.prems(1) have "f x \<notin> f ` set xs" by simp
    with True have "\<forall>y\<in>set xs. f y \<noteq> a" by blast
    then have "filter (\<lambda>y. f y = a) xs = []" by (simp add: filter_empty_conv)
    with True show ?thesis by simp
  next
    case False
    with Cons show ?thesis by auto
  qed
qed

lemma counted_sessionInv:
  assumes "idsCounted s" "activeLayer s \<in> set (layerIds s)"
    and "int (length (layers s)) < 2 ^ 53"
  shows "sessionInv s"
  using counted_distinct [OF assms(1,3)] assms(2)
  by (simp add: sessionInv_def layerIds_def distinct_one_match)

lemma mount_counted:
  "idsCounted (mount B)" "activeLayer (mount B) \<in> set (layerIds (mount B))"
  by (simp_all add: idsCounted_def layerIds_def mount_def commitEffect_def toolEffect_def
      resizeCanvas_def initial_def Let_def setLayerData_def decimal_def
      digits.simps digitChar_def)

lemma run_snoc: "run B (es @ [e]) s = step B (run B es s) e"
  by (simp add: run_def)

lemma admissibleRun_snoc:
  "admissibleRun B s (es @ [e]) = (admissibleRun B s es \<and> admissible (run B es s) e)"
  by (induction es arbitrary: s) (simp_all add: run_def)

lemma run_counted:
  "idsCounted s \<Longrightarrow> activeLayer s \<in> set (layerIds s) \<Longrightarrow> admissibleRun B s es \<Longrightarrow>
   int (length (layers (run B es s))) < 2 ^ 53 \<Longrightarrow>
     idsCounted (run B es s) \<and> activeLayer (run B es s) \<in> set (layerIds (run B es s))"
proof (induction es rule: rev_induct)
  case Nil
  then show ?case by (simp add: run_def)
next
  case (snoc e es)
  from snoc.prems(3) have adm: "admissibleRun B s es" "admissible (run B es s) e"
    by (simp_all add: admissibleRun_snoc)
  from snoc.prems(4) have last: "int (length (layers (step B (run B es s) e))) < 2 ^ 53"
    by (simp add: run_snoc)
  with step_grows [of "run B es s" B e] have "int (length (layers (run B es s))) < 2 ^ 53"
    by simp
  with snoc.IH snoc.prems(1,2) adm(1)
  have "idsCounted (run B es s)" "activeLayer (run B es s) \<in> set (layerIds (run B es s))"
    by simp_all
  from step_counted [OF this adm(2) last] show ?case by (simp add: run_snoc)
qed

text \<open>
  Claim C9, as amended. In every session reached from the first render by the operations of
  the page, layer ids are unique, exactly one layer is active and \<open>activeLayer\<close> is the id
  of a layer of the store, provided each \<open>switchLayer\<close> is given the id of a layer of the
  store at that moment and the store holds fewer than \<open>2 ^ 53\<close> layers, the ids that a
  Number counts exactly.
\<close>

theorem reachable_sessionInv:
  assumes "admissibleRun B (mount B) es"
    and "int (length (layers (run B es (mount B)))) < 2 ^ 53"
  shows "sessionInv (run B es (mount B))"
proof -
  from run_counted [OF mount_counted(1) mount_counted(2) assms]
  show ?thesis using assms(2) by (simp add: counted_sessionInv)
qed

theorem reachable_sessionInv_witness:
  "admissibleRun demoBrowser (mount demoBrowser)
     [AddLayer, PointerDown 1 1, PointerMove 2 2, PointerUp, SwitchLayer ''1'', Undo, AddLayer,
      Clear, ToggleVisibility ''2'', SwitchLayer ''3'', SetTool Eraser] \<and>
   sessionInv (run demoBrowser
     [AddLayer, PointerDown 1 1, PointerMove 2 2, PointerUp, SwitchLayer ''1'', Undo, AddLayer,
      Clear, ToggleVisibility ''2'', SwitchLayer ''3'', SetTool Eraser] (mount demoBrowser))"
proof -
  have "admissibleRun demoBrowser (mount demoBrowser)
     [AddLayer, PointerDown 1 1, PointerMove 2 2, PointerUp, SwitchLayer ''1'', Undo, AddLayer,
      Clear, ToggleVisibility ''2'', SwitchLayer ''3'', SetTool Eraser]"
    "int (length (layers (run demoBrowser
     [AddLayer, PointerDown 1 1, PointerMove 2 2, PointerUp, SwitchLayer ''1'', Undo, AddLayer,
      Clear, ToggleVisibility ''2'', SwitchLayer ''3'', SetTool Eraser] (mount demoBrowser)))) <
       2 ^ 53"
    by code_simp+
  then show ?thesis using reachable_sessionInv by blast
qed

text \<open>\<open>switchLayer\<close> sets \<open>activeLayer\<close> to its argument whether or not a layer has that
  id.\<close>

theorem switchLayer_unknown_id:
  "sessionInv (mount demoBrowser) \<and>
   \<not> sessionInv (step demoBrowser (mount demoBrowser) (SwitchLayer ''7''))"
  by code_simp

section \<open>The eraser\<close>

text \<open>Switching to the eraser sets the stroke style of the context to white and leaves
  \<open>color\<close> alone; the strokes that follow paint with that style; switching back to the
  brush sets the stroke style to \<open>color\<close> again. White is the background of the canvas
  while dark mode is off.\<close>

lemma setTool_Eraser:
  assumes "contextRef s" and "tool s \<noteq> Eraser"
  shows "strokeStyle (setTool Eraser s) = ''#ffffff''" and "color (setTool Eraser s) = color s"
    and "tool (setTool Eraser s) = Eraser"
  using assms by (simp_all add: setTool_def toolEffect_def)

lemma setTool_Brush:
  assumes "contextRef s" and "tool s = Eraser"
  shows "strokeStyle (setTool Brush s) = color s" and "color (setTool Brush s) = color s"
  using assms by (simp_all add: setTool_def toolEffect_def)

lemma stroke_keeps_strokeStyle:
  assumes "tool s = Brush \<or> tool s = Eraser"
  shows "strokeStyle (startDrawing B x y s) = strokeStyle s"
    and "strokeStyle (draw B x y s) = strokeStyle s"
    and "strokeStyle (stopDrawing B s) = strokeStyle s"
  using assms
  by (auto simp: startDrawing_def draw_def stopDrawing_def setIsDrawing_def commitEffect_def Let_def)

lemma eraser_paints_strokeStyle:
  assumes "isDrawing s" "contextRef s" "tool s = Eraser"
  shows "canvas (draw B x y s) = stroke B (path s @ [LineTo x y]) (strokeStyle s) (lineWidth s) (canvas s)"
  using assms by (simp add: draw_def Let_def)

lemma light_background: "\<not> darkMode s \<Longrightarrow> canvasBackground s = ''#ffffff''"
  by (simp add: canvasBackground_def canvasClass_def tailwindColor_def)

text \<open>
  Claim C10. After a switch to the eraser the strokes paint in the background colour of
  the canvas, and the stored brush colour is unchanged. The stroke style is the constant
  \<open>#ffffff\<close>, while the canvas element takes \<open>bg-gray-700\<close> in dark mode: there the eraser
  paints white strokes on a grey canvas.
\<close>

theorem eraser_in_dark_mode:
  "strokeStyle (run demoBrowser [ToggleDarkMode, SetTool Eraser] (mount demoBrowser)) = ''#ffffff'' \<and>
   canvasBackground (run demoBrowser [ToggleDarkMode, SetTool Eraser] (mount demoBrowser)) =
     ''#374151'' \<and>
   canvas (run demoBrowser
      [ToggleDarkMode, SetTool Eraser, PointerDown 1 1, PointerMove 2 2, PointerUp]
      (mount demoBrowser)) = ''80x60:[M1,1L2,2#ffffff]''"
  by code_simp

end
